theory Spec2Isabelle
  imports Main
begin

section \<open>Ticket records\<close>

text \<open>
  The input of \<^verbatim>\<open>main.py\<close> is line-delimited JSON. A ticket is a JSON object of which
  the program reads three keys. The model types them as the input schema does:
  \<^verbatim>\<open>created_at\<close> is a string when the key is present, \<^verbatim>\<open>tags\<close> a sequence of strings,
  \<^verbatim>\<open>custom_fields\<close> a sequence of objects with an integer \<^verbatim>\<open>id\<close> and a string \<^verbatim>\<open>value\<close>.
  \<open>None\<close> stands for a key that is absent (and, for \<^verbatim>\<open>dict.get\<close>, for a JSON null).
\<close>

record field =
  field_id :: "int option"
  field_value :: "string option"

record entry =
  created_at :: "string option"
  tags :: "string list option"
  custom_fields :: "field list option"

datatype error = ValueError string

datatype level = INFO | WARNING | ERROR

text \<open>A record of the logging module: level, message (or format string) and the
  integer arguments of a \<^verbatim>\<open>%d\<close> format.\<close>

datatype log_record = LogRecord level string "nat list"

section \<open>Counters\<close>

text \<open>
  A \<^verbatim>\<open>defaultdict(int)\<close> is an association list in insertion order with distinct keys;
  \<^verbatim>\<open>d[k] += 1\<close> is \<open>increment\<close>, \<^verbatim>\<open>d.get(k, 0)\<close> is \<open>count_of\<close> and
  \<^verbatim>\<open>sum(d.values())\<close> is \<open>sum_values\<close>.
\<close>

fun increment :: "'k \<Rightarrow> ('k \<times> nat) list \<Rightarrow> ('k \<times> nat) list" where
  "increment k [] = [(k, 1)]"
| "increment k ((k', n) # d) = (if k = k' then (k', n + 1) # d else (k', n) # increment k d)"

definition count_of :: "('k \<times> nat) list \<Rightarrow> 'k \<Rightarrow> nat" where
  "count_of d k = (case map_of d k of None \<Rightarrow> 0 | Some n \<Rightarrow> n)"

definition sum_values :: "('k \<times> nat) list \<Rightarrow> nat" where
  "sum_values d = sum_list (map snd d)"

text \<open>Python's truth value of an optional string: \<^verbatim>\<open>None\<close> and \<^verbatim>\<open>""\<close> are false.\<close>

fun truthy :: "string option \<Rightarrow> bool" where
  "truthy None = False"
| "truthy (Some s) = (s \<noteq> [])"

section \<open>The library's timestamp parser\<close>

text \<open>
  \<^verbatim>\<open>datetime.strptime\<close> belongs to the Python library, not to the repository. Its model
  covers the directives that the two format strings of \<^verbatim>\<open>analyze_data\<close> use. The library
  turns the format into a regular expression (one alternation per directive, matched with
  backtracking and ignoring case), requires the match to consume the whole input and then
  builds the date, raising \<^verbatim>\<open>ValueError\<close> at every failure. The text of these errors is
  never read by the program and is abbreviated here.
\<close>

datatype directive = Lit char | DY | Dm | Dd | DH | DM | DS | Df | Dz

fun directive_of :: "char \<Rightarrow> directive option" where
  "directive_of c =
     (if c = CHR ''Y'' then Some DY else if c = CHR ''m'' then Some Dm
      else if c = CHR ''d'' then Some Dd else if c = CHR ''H'' then Some DH
      else if c = CHR ''M'' then Some DM else if c = CHR ''S'' then Some DS
      else if c = CHR ''f'' then Some Df else if c = CHR ''z'' then Some Dz
      else if c = CHR ''%'' then Some (Lit c) else None)"

fun parse_format :: "string \<Rightarrow> directive list option" where
  "parse_format [] = Some []"
| "parse_format [c] = (if c = CHR ''%'' then None else Some [Lit c])"
| "parse_format (c # d # cs) =
     (if c = CHR ''%'' then
        (case directive_of d of None \<Rightarrow> None
         | Some x \<Rightarrow> map_option ((#) x) (parse_format cs))
      else map_option ((#) (Lit c)) (parse_format (d # cs)))"

text \<open>Character classes of the library's regular expressions.\<close>

definition rng :: "char \<Rightarrow> char \<Rightarrow> char \<Rightarrow> bool" where
  "rng lo hi c = ((of_char lo :: nat) \<le> of_char c \<and> (of_char c :: nat) \<le> of_char hi)"

definition digit :: "char \<Rightarrow> bool" where
  "digit = rng CHR ''0'' CHR ''9''"

definition is_char :: "char \<Rightarrow> char \<Rightarrow> bool" where
  "is_char a c = (c = a)"

definition lower :: "char \<Rightarrow> char" where
  "lower c = (if rng CHR ''A'' CHR ''Z'' c then char_of (of_char c + (32::nat)) else c)"

definition is_char_ignorecase :: "char \<Rightarrow> char \<Rightarrow> bool" where
  "is_char_ignorecase a c = (lower c = lower a)"

text \<open>One alternative of an alternation is a sequence of character classes; it matches a
  prefix of the input or nothing.\<close>

fun match_alt :: "(char \<Rightarrow> bool) list \<Rightarrow> string \<Rightarrow> (string \<times> string) option" where
  "match_alt [] s = Some ([], s)"
| "match_alt (p # ps) [] = None"
| "match_alt (p # ps) (c # s) =
     (if p c then map_option (\<lambda>(m, r). (c # m, r)) (match_alt ps s) else None)"

definition frac_tails :: "(char \<Rightarrow> bool) list list" where
  "frac_tails = map (\<lambda>n. is_char CHR ''.'' # replicate n digit) [6, 5, 4, 3, 2, 1] @ [[]]"

definition sec_tails :: "(char \<Rightarrow> bool) list list" where
  "sec_tails =
     concat (map (\<lambda>c2. map (\<lambda>fr. c2 @ [rng CHR ''0'' CHR ''5'', digit] @ fr) frac_tails)
                 [[is_char CHR '':''], []]) @ [[]]"

text \<open>
  The alternations, in the library's order (an earlier alternative is tried first):
  \<^verbatim>\<open>%Y  \d\d\d\d\<close>,
  \<^verbatim>\<open>%m  1[0-2]|0[1-9]|[1-9]\<close>,
  \<^verbatim>\<open>%d  3[0-1]|[1-2]\d|0[1-9]|[1-9]| [1-9]\<close>,
  \<^verbatim>\<open>%H  2[0-3]|[0-1]\d|\d\<close>,
  \<^verbatim>\<open>%M  [0-5]\d|\d\<close>,
  \<^verbatim>\<open>%S  6[0-1]|[0-5]\d|\d\<close>,
  \<^verbatim>\<open>%f  [0-9]{1,6}\<close>,
  \<^verbatim>\<open>%z  [+-]\d\d:?[0-5]\d(:?[0-5]\d(\.\d{1,6})?)?|(?-i:Z)\<close>.
\<close>

fun alternatives :: "directive \<Rightarrow> (char \<Rightarrow> bool) list list" where
  "alternatives (Lit c) = [[is_char_ignorecase c]]"
| "alternatives DY = [[digit, digit, digit, digit]]"
| "alternatives Dm =
     [[is_char CHR ''1'', rng CHR ''0'' CHR ''2''], [is_char CHR ''0'', rng CHR ''1'' CHR ''9''],
      [rng CHR ''1'' CHR ''9'']]"
| "alternatives Dd =
     [[is_char CHR ''3'', rng CHR ''0'' CHR ''1''], [rng CHR ''1'' CHR ''2'', digit],
      [is_char CHR ''0'', rng CHR ''1'' CHR ''9''], [rng CHR ''1'' CHR ''9''],
      [is_char CHR '' '', rng CHR ''1'' CHR ''9'']]"
| "alternatives DH =
     [[is_char CHR ''2'', rng CHR ''0'' CHR ''3''], [rng CHR ''0'' CHR ''1'', digit], [digit]]"
| "alternatives DM = [[rng CHR ''0'' CHR ''5'', digit], [digit]]"
| "alternatives DS =
     [[is_char CHR ''6'', rng CHR ''0'' CHR ''1''], [rng CHR ''0'' CHR ''5'', digit], [digit]]"
| "alternatives Df = map (\<lambda>n. replicate n digit) [6, 5, 4, 3, 2, 1]"
| "alternatives Dz =
     concat (map (\<lambda>c1. map (\<lambda>tl. [(\<lambda>c. c = CHR ''+'' \<or> c = CHR ''-''), digit, digit] @ c1
                                      @ [rng CHR ''0'' CHR ''5'', digit] @ tl) sec_tails)
                 [[is_char CHR '':''], []])
     @ [[is_char CHR ''Z'']]"

text \<open>The first way, in the order of the alternatives, to match the whole directive list
  against a prefix of the input: the matched text of every directive and the rest.\<close>

fun regex_match :: "directive list \<Rightarrow> string \<Rightarrow> ((directive \<times> string) list \<times> string) option" where
  "regex_match [] s = Some ([], s)"
| "regex_match (d # ds) s =
     (case List.map_filter
             (\<lambda>alt. case match_alt alt s of None \<Rightarrow> None
                     | Some (m, r) \<Rightarrow> map_option (\<lambda>(fs, r'). ((d, m) # fs, r')) (regex_match ds r))
             (alternatives d)
      of [] \<Rightarrow> None | x # _ \<Rightarrow> Some x)"

text \<open>Conversion of the matched groups, as the library does it after the match.\<close>

definition int_of :: "string \<Rightarrow> nat" where
  \<comment> \<open>\<^verbatim>\<open>int(s)\<close> for a string of digits, blanks around them ignored\<close>
  "int_of s = foldl (\<lambda>n c. 10 * n + (of_char c - 48)) 0 (filter digit s)"

definition slice :: "nat \<Rightarrow> nat \<Rightarrow> 'a list \<Rightarrow> 'a list" where
  \<comment> \<open>\<^verbatim>\<open>xs[i:j]\<close> for \<open>0 \<le> i \<le> j\<close>\<close>
  "slice i j xs = take (j - i) (drop i xs)"

definition is_leap :: "nat \<Rightarrow> bool" where
  "is_leap y = (y mod 4 = 0 \<and> (y mod 100 \<noteq> 0 \<or> y mod 400 = 0))"

definition days_in_month :: "nat \<Rightarrow> nat \<Rightarrow> nat" where
  "days_in_month y m =
     (if m = 2 then (if is_leap y then 29 else 28)
      else if m = 4 \<or> m = 6 \<or> m = 9 \<or> m = 11 then 30 else 31)"

text \<open>The UTC offset of a \<^verbatim>\<open>%z\<close> group in microseconds. The library removes the colons
  (both or none must be there), reads hours, minutes, seconds and fraction, and its
  \<^verbatim>\<open>timezone\<close> accepts offsets strictly between minus and plus 24 hours.\<close>

definition gmtoff_of :: "string \<Rightarrow> error + int" where
  "gmtoff_of z0 =
     (if z0 = ''Z'' then Inr 0
      else
        let colon = (z0 ! 3 = CHR '':'');
            z1 = (if colon then slice 0 3 z0 @ drop 4 z0 else z0)
        in if colon \<and> length z1 > 5 \<and> z1 ! 5 \<noteq> CHR '':''
           then Inl (ValueError ''Inconsistent use of :'')
           else
             let z = (if colon \<and> length z1 > 5 then slice 0 5 z1 @ drop 6 z1 else z1)
             in if \<not> list_all digit (slice 5 7 z)
                then Inl (ValueError ''invalid literal for int()'')
                else
                  let hours = int_of (slice 1 3 z);
                      minutes = int_of (slice 3 5 z);
                      seconds = int_of (slice 5 7 z);
                      gmtoff = hours * 60 * 60 + minutes * 60 + seconds;
                      remainder = drop 8 z;
                      fraction = int_of (remainder @ replicate (6 - length remainder) CHR ''0'');
                      micro = gmtoff * 1000000 + fraction
                  in if 86400 * 1000000 \<le> micro
                     then Inl (ValueError ''offset must be strictly between -24h and 24h'')
                     else Inr (if take 1 z = ''-'' then - int micro else int micro))"

record datetime =
  year :: int
  month :: nat
  day :: nat
  hour :: nat
  minute :: nat
  second :: nat
  microsecond :: nat
  utcoffset :: "int option"

definition group_int :: "(directive \<times> string) list \<Rightarrow> directive \<Rightarrow> nat \<Rightarrow> nat" where
  "group_int found d dflt = (case map_of found d of None \<Rightarrow> dflt | Some m \<Rightarrow> int_of m)"

definition build_datetime :: "(directive \<times> string) list \<Rightarrow> error + datetime" where
  "build_datetime found =
     (let y = group_int found DY 1900;
          mo = group_int found Dm 1;
          d = group_int found Dd 1;
          s = group_int found DS 0;
          f = (case map_of found Df of None \<Rightarrow> 0
               | Some m \<Rightarrow> int_of (m @ replicate (6 - length m) CHR ''0''))
      in case (case map_of found Dz of None \<Rightarrow> Inr None
               | Some z \<Rightarrow> (case gmtoff_of z of Inl e \<Rightarrow> Inl e | Inr off \<Rightarrow> Inr (Some off)))
         of Inl e \<Rightarrow> Inl e
          | Inr tz \<Rightarrow>
            if y < 1 then Inl (ValueError ''year is out of range'')
            else if days_in_month y mo < d then Inl (ValueError ''day is out of range for month'')
            else if 59 < s then Inl (ValueError ''second must be in 0..59'')
            else Inr \<lparr>year = int y, month = mo, day = d, hour = group_int found DH 0,
                      minute = group_int found DM 0, second = s, microsecond = f,
                      utcoffset = tz\<rparr>)"

definition strptime :: "string \<Rightarrow> string \<Rightarrow> error + datetime" where
  "strptime data_string format =
     (case parse_format format of
        None \<Rightarrow> Inl (ValueError ''bad directive in format'')
      | Some ds \<Rightarrow>
        (case regex_match ds data_string of
           None \<Rightarrow> Inl (ValueError ''time data does not match format'')
         | Some (found, rest) \<Rightarrow>
             if rest \<noteq> [] then Inl (ValueError ''unconverted data remains'')
             else build_datetime found))"

section \<open>The aggregation: \<^verbatim>\<open>analyze_data\<close>\<close>

text \<open>The accumulators that \<^verbatim>\<open>analyze_data\<close> creates before its loop.\<close>

record accum =
  created_at_year_count :: "(int \<times> nat) list"
  tags_count :: "(string \<times> nat) list"
  program_area_count :: "(string \<times> nat) list"
  segment_count :: "(string \<times> nat) list"
  channel_count :: "(string \<times> nat) list"
  type_of_inquiry_count :: "(string \<times> nat) list"
  spam_ticket_count :: nat
  unique_tags :: "string set"
  unique_program_areas :: "string set"
  unique_segments :: "string set"
  unique_channels :: "string set"
  unique_types_of_inquiry :: "string set"

text \<open>The dictionary that \<^verbatim>\<open>analyze_data\<close> returns: the accumulators and the total.\<close>

record analysis_stats = accum +
  total_tickets :: nat

definition init_accum :: accum where
  "init_accum =
     \<lparr>created_at_year_count = [], tags_count = [], program_area_count = [],
      segment_count = [], channel_count = [], type_of_inquiry_count = [],
      spam_ticket_count = 0, unique_tags = {}, unique_program_areas = {},
      unique_segments = {}, unique_channels = {}, unique_types_of_inquiry = {}\<rparr>"

definition FIELD_ID_TO_NAME :: "(int \<times> string) list" where
  "FIELD_ID_TO_NAME =
     [(38954747, ''channel''), (38829288, ''type_of_inquiry''),
      (38830788, ''program_area''), (1500001654502, ''segment'')]"

text \<open>The four variables that the loop over the custom fields assigns for one ticket.\<close>

record locals =
  program_area :: "string option"
  segment :: "string option"
  channel :: "string option"
  type_of_inquiry :: "string option"

definition init_locals :: locals where
  "init_locals = \<lparr>program_area = None, segment = None, channel = None, type_of_inquiry = None\<rparr>"

text \<open>Lines 76 to 86: the year of \<^verbatim>\<open>created_at\<close>, first format, then second format, then
  the warning. The log is the list of records emitted so far.\<close>

definition format_A :: string where
  "format_A = ''%Y-%m-%dT%H:%M:%S.%fZ''"

definition format_B :: string where
  "format_B = ''%Y-%m-%dT%H:%M:%S.%f%z''"

definition count_year :: "entry \<Rightarrow> accum \<times> log_record list \<Rightarrow> accum \<times> log_record list" where
  "count_year e s =
     (let (acc, lg) = s in
      case created_at e of
        None \<Rightarrow> (acc, lg)
      | Some c \<Rightarrow>
         (case strptime c format_A of
            Inr dt \<Rightarrow>
              (acc\<lparr>created_at_year_count := increment (year dt) (created_at_year_count acc)\<rparr>, lg)
          | Inl (ValueError _) \<Rightarrow>
             (case strptime c format_B of
                Inr dt \<Rightarrow>
                  (acc\<lparr>created_at_year_count := increment (year dt) (created_at_year_count acc)\<rparr>,
                   lg)
              | Inl (ValueError _) \<Rightarrow>
                  (acc, lg @ [LogRecord WARNING (''Invalid date format for entry: '' @ c) []]))))"

text \<open>Lines 89 to 93: the tags.\<close>

fun tags_loop :: "string list \<Rightarrow> accum \<Rightarrow> accum" where
  "tags_loop [] acc = acc"
| "tags_loop (tag # ts) acc =
     tags_loop ts (acc\<lparr>tags_count := increment tag (tags_count acc),
                        unique_tags := insert tag (unique_tags acc)\<rparr>)"

definition count_tags :: "entry \<Rightarrow> accum \<Rightarrow> accum" where
  "count_tags e acc =
     (case tags e of
        None \<Rightarrow> acc
      | Some ts \<Rightarrow> if ts \<noteq> [] then tags_loop ts acc else acc)"

text \<open>Lines 102 to 125: one iteration of the loop over the custom fields.\<close>

definition field_step :: "field \<Rightarrow> accum \<times> locals \<Rightarrow> accum \<times> locals" where
  "field_step fld s =
     (let (acc, loc) = s;
          v = field_value fld;
          field_name = (case field_id fld of None \<Rightarrow> None | Some i \<Rightarrow> map_of FIELD_ID_TO_NAME i)
      in if field_name = Some ''program_area'' then
           (case v of
              Some x \<Rightarrow>
                if x \<noteq> [] then
                  acc\<lparr>program_area_count := increment x (program_area_count acc),
                      unique_program_areas := insert x (unique_program_areas acc)\<rparr>
                else acc
            | None \<Rightarrow> acc,
            loc\<lparr>program_area := v\<rparr>)
         else if field_name = Some ''segment'' then
           (case v of
              Some x \<Rightarrow>
                if x \<noteq> [] then
                  acc\<lparr>segment_count := increment x (segment_count acc),
                      unique_segments := insert x (unique_segments acc)\<rparr>
                else acc
            | None \<Rightarrow> acc,
            loc\<lparr>segment := v\<rparr>)
         else if field_name = Some ''channel'' then
           (case v of
              Some x \<Rightarrow>
                if x \<noteq> [] then
                  acc\<lparr>channel_count := increment x (channel_count acc),
                      unique_channels := insert x (unique_channels acc)\<rparr>
                else acc
            | None \<Rightarrow> acc,
            loc\<lparr>channel := v\<rparr>)
         else if field_name = Some ''type_of_inquiry'' then
           (case v of
              Some x \<Rightarrow>
                if x \<noteq> [] then
                  acc\<lparr>type_of_inquiry_count := increment x (type_of_inquiry_count acc),
                      unique_types_of_inquiry := insert x (unique_types_of_inquiry acc)\<rparr>
                else acc
            | None \<Rightarrow> acc,
            loc\<lparr>type_of_inquiry := v\<rparr>)
         else (acc, loc))"

fun fields_loop :: "field list \<Rightarrow> accum \<times> locals \<Rightarrow> accum \<times> locals" where
  "fields_loop [] s = s"
| "fields_loop (fld # fs) s = fields_loop fs (field_step fld s)"

text \<open>Lines 96 to 128: the custom fields of one ticket, then the spam counter.\<close>

definition count_fields :: "entry \<Rightarrow> accum \<Rightarrow> accum" where
  "count_fields e acc =
     (let fs = (case custom_fields e of None \<Rightarrow> [] | Some l \<Rightarrow> l);
          (acc', loc) = fields_loop fs (acc, init_locals)
      in if \<not> truthy (program_area loc)
         then acc'\<lparr>spam_ticket_count := spam_ticket_count acc' + 1\<rparr>
         else acc')"

text \<open>The body of the loop over the tickets (lines 75 to 128).\<close>

definition analyze_entry :: "entry \<Rightarrow> accum \<times> log_record list \<Rightarrow> accum \<times> log_record list" where
  "analyze_entry e s =
     (let (acc, lg) = count_year e s in (count_fields e (count_tags e acc), lg))"

fun entries_loop :: "entry list \<Rightarrow> accum \<times> log_record list \<Rightarrow> accum \<times> log_record list" where
  "entries_loop [] s = s"
| "entries_loop (e # es) s = entries_loop es (analyze_entry e s)"

text \<open>\<^verbatim>\<open>analyze_data\<close>: the statistics and the log records it emitted.\<close>

definition analyze_data :: "entry list \<Rightarrow> analysis_stats \<times> log_record list" where
  "analyze_data data_entries =
     (let (acc, lg) = entries_loop data_entries (init_accum, [])
      in (\<lparr>created_at_year_count = created_at_year_count acc,
           tags_count = tags_count acc,
           program_area_count = program_area_count acc,
           segment_count = segment_count acc,
           channel_count = channel_count acc,
           type_of_inquiry_count = type_of_inquiry_count acc,
           spam_ticket_count = spam_ticket_count acc,
           unique_tags = unique_tags acc,
           unique_program_areas = unique_program_areas acc,
           unique_segments = unique_segments acc,
           unique_channels = unique_channels acc,
           unique_types_of_inquiry = unique_types_of_inquiry acc,
           total_tickets = length data_entries\<rparr>, lg))"

section \<open>Files and effects\<close>

text \<open>
  A line of an input file, after \<^verbatim>\<open>json.loads\<close>: a decoding error with the decoder's
  message, an array of tickets or a single ticket.
\<close>

datatype line = Malformed string | Array "entry list" | Single entry

text \<open>The effects of a run in the order they happen: a log record, a \<^verbatim>\<open>json.dump\<close> of
  the merged records to a path, a workbook written to a path from the statistics.\<close>

datatype event =
  Log log_record
| WriteJson string "entry list"
| WriteXlsx string analysis_stats

text \<open>
  What a run reads from the input folder is an argument of the run, its listing: the
  names that \<^verbatim>\<open>os.listdir\<close> returns, each with the lines of the file. The listing of a
  later run is another argument and nothing is assumed about it: a run adds workbooks to
  the input folder, and an output path inside the input folder adds the merged file to it.

  The state that a run changes is the content of the output file (its records, when the
  file exists) and the trace of effects. The output path is taken to differ from the paths
  of the workbooks that the run writes.
\<close>

type_synonym listing = "(string \<times> line list) list"

record world =
  persisted :: "entry list option"
  trace :: "event list"

definition info :: "string \<Rightarrow> event" where
  "info msg = Log (LogRecord INFO msg [])"

definition endswith :: "string \<Rightarrow> string \<Rightarrow> bool" where
  "endswith s suffix = (length suffix \<le> length s \<and> drop (length s - length suffix) s = suffix)"

text \<open>\<^verbatim>\<open>os.path.join\<close>, \<^verbatim>\<open>os.path.basename\<close> and the root of \<^verbatim>\<open>os.path.splitext\<close> on POSIX
  paths (library functions).\<close>

definition path_join :: "string \<Rightarrow> string \<Rightarrow> string" where
  "path_join a b =
     (if take 1 b = ''/'' then b
      else if a = [] \<or> endswith a ''/'' then a @ b
      else a @ ''/'' @ b)"

definition basename :: "string \<Rightarrow> string" where
  "basename p = rev (takeWhile (\<lambda>c. c \<noteq> CHR ''/'') (rev p))"

definition splitext_root :: "string \<Rightarrow> string" where
  "splitext_root p =
     (let ext = takeWhile (\<lambda>c. c \<noteq> CHR ''.'') (rev p)
      in if length ext = length p \<or> CHR ''/'' \<in> set ext then p
         else
           let head = take (length p - length ext - 1) p
           in if list_ex (\<lambda>c. c \<noteq> CHR ''.'') (takeWhile (\<lambda>c. c \<noteq> CHR ''/'') (rev head))
              then head else p)"

section \<open>\<^verbatim>\<open>process_file\<close> and \<^verbatim>\<open>write_analysis_to_excel\<close>\<close>

fun lines_loop :: "string \<Rightarrow> line list \<Rightarrow> entry list \<times> event list \<Rightarrow> entry list \<times> event list" where
  "lines_loop file_path [] s = s"
| "lines_loop file_path (l # ls) s =
     lines_loop file_path ls
       (let (data_entries, tr) = s in
        case l of
          Array xs \<Rightarrow> (data_entries @ xs, tr)
        | Single x \<Rightarrow> (data_entries @ [x], tr)
        | Malformed m \<Rightarrow>
            (data_entries,
             tr @ [Log (LogRecord ERROR (''Error reading line in '' @ file_path @ '': '' @ m) [])]))"

definition process_file :: "string \<Rightarrow> line list \<Rightarrow> event list \<Rightarrow> entry list \<times> event list" where
  "process_file file_path lines tr =
     lines_loop file_path lines ([], tr @ [info (''Processing file: '' @ basename file_path)])"

text \<open>The rendering of the workbook belongs to \<^verbatim>\<open>xlsxwriter\<close>; the model records which
  statistics went to which path.\<close>

definition write_analysis_to_excel :: "analysis_stats \<Rightarrow> string \<Rightarrow> event list \<Rightarrow> event list" where
  "write_analysis_to_excel stats analysis_file tr =
     tr @ [info (''Writing analysis to Excel file: '' @ analysis_file),
           WriteXlsx analysis_file stats]"

section \<open>\<^verbatim>\<open>collate_and_analyze_json_files\<close>\<close>

text \<open>Lines 268 to 276: every split file is loaded, appended to the union, analysed and
  reported.\<close>

fun files_loop ::
  "string \<Rightarrow> (string \<times> line list) list \<Rightarrow> entry list \<times> event list \<Rightarrow> entry list \<times> event list" where
  "files_loop input_folder [] s = s"
| "files_loop input_folder (f # fs) s =
     files_loop input_folder fs
       (let (all_data, tr) = s;
            (filename, lines) = f;
            file_path = path_join input_folder filename;
            (data_entries, tr1) = process_file file_path lines tr;
            (stats, lg) = analyze_data data_entries;
            split_analysis_file = splitext_root filename @ ''_analysis.xlsx''
        in (all_data @ data_entries,
            write_analysis_to_excel stats (path_join input_folder split_analysis_file)
              (tr1 @ map Log lg)))"

text \<open>Lines 278 to 298: the output file is compared by record count, kept or written.\<close>

definition merge_output :: "string \<Rightarrow> entry list \<Rightarrow> world \<Rightarrow> world" where
  "merge_output output_file all_data w =
     (case persisted w of
        Some existing_data \<Rightarrow>
          (let tr1 = trace w @
                 [info (output_file @
                    '' already exists. Verifying the integrity of the collated data...'')]
           in if length existing_data = length all_data
              then w\<lparr>trace := tr1 @
                     [info ''The collated data is complete. Skipping re-collation.'']\<rparr>
              else w\<lparr>persisted := Some all_data,
                     trace := tr1 @
                       [Log (LogRecord WARNING
                          ''The collated data does not match the split files. Re-collating data...''
                          []),
                        WriteJson output_file all_data]\<rparr>)
      | None \<Rightarrow>
          w\<lparr>persisted := Some all_data,
            trace := trace w @
              [info ''Writing combined JSON data to output file...'',
               WriteJson output_file all_data]\<rparr>)"

text \<open>Lines 304 to 325: the two validation checks; a \<^verbatim>\<open>raise\<close> is the left injection.\<close>

definition validation_checks :: "analysis_stats \<Rightarrow> event list \<Rightarrow> (error + unit) \<times> event list" where
  "validation_checks stats tr =
     (let total = total_tickets stats;
          total_program_area_tickets = sum_values (program_area_count stats);
          spam = spam_ticket_count stats
      in if total \<noteq> total_program_area_tickets + spam then
           (Inl (ValueError ''Validation failed for combined data.''),
            tr @ [Log (LogRecord ERROR
              ''Validation failed (1/2): Total tickets (%d) do not match the sum of program area tickets (%d) and spam tickets (%d).''
              [total, total_program_area_tickets, spam])])
         else
           (let tr1 = tr @
                  [info ''Validation passed (1/2): Total tickets match the sum of program area tickets and spam tickets.'']
            in if total = spam then
                 (Inl (ValueError ''All tickets are considered spam.''),
                  tr1 @ [Log (LogRecord ERROR
                    ''Validation failed (2/2): All tickets are considered spam (%d out of %d). Something went wrong.''
                    [spam, total])])
               else
                 (Inr (),
                  tr1 @ [info ''Validation passed (2/2): Not all tickets are spam.'',
                         info ''Collation and analysis completed successfully.''])))"

text \<open>The files that line 261 selects.\<close>

definition split_files_of :: "listing \<Rightarrow> listing" where
  "split_files_of ls = filter (\<lambda>f. endswith (fst f) ''.json'') ls"

text \<open>The whole function. Both the early \<^verbatim>\<open>return\<close> of line 265 and the normal end return
  \<^verbatim>\<open>None\<close> to the caller: \<open>Inr ()\<close>.\<close>

definition collate_and_analyze_json_files ::
  "string \<Rightarrow> string \<Rightarrow> string \<Rightarrow> listing \<Rightarrow> world \<Rightarrow> (error + unit) \<times> world" where
  "collate_and_analyze_json_files input_folder output_file combined_analysis_file ls w =
     (let split_files = split_files_of ls
      in if split_files = [] then
           (Inr (),
            w\<lparr>trace := trace w @
                [Log (LogRecord ERROR ''No JSON files found in the input folder.'' [])]\<rparr>)
         else
           (let (all_data, tr1) = files_loop input_folder split_files ([], trace w);
                w2 = merge_output output_file all_data (w\<lparr>trace := tr1\<rparr>);
                (combined_analysis_stats, lg) = analyze_data all_data;
                tr3 = write_analysis_to_excel combined_analysis_stats combined_analysis_file
                        (trace w2 @ map Log lg);
                (r, tr4) = validation_checks combined_analysis_stats tr3
            in (r, w2\<lparr>trace := tr4\<rparr>)))"

section \<open>Notions used to state the properties\<close>

text \<open>\<^verbatim>\<open>entry.get('tags', [])\<close> and \<^verbatim>\<open>entry.get('custom_fields', [])\<close>, read as the
  sequences the loops run over.\<close>

definition tags_of :: "entry \<Rightarrow> string list" where
  "tags_of e = (case tags e of None \<Rightarrow> [] | Some ts \<Rightarrow> ts)"

definition fields_of :: "entry \<Rightarrow> field list" where
  "fields_of e = (case custom_fields e of None \<Rightarrow> [] | Some l \<Rightarrow> l)"

text \<open>The category name of a custom field: \<^verbatim>\<open>FIELD_ID_TO_NAME.get(field.get('id'))\<close>.\<close>

definition name_of :: "field \<Rightarrow> string option" where
  "name_of fld = (case field_id fld of None \<Rightarrow> None | Some i \<Rightarrow> map_of FIELD_ID_TO_NAME i)"

text \<open>The resolved value of a category as the specification words it: the value of the
  last custom field that maps to the category, absent when no field maps to it.\<close>

definition last_occurrence :: "string \<Rightarrow> field list \<Rightarrow> string option" where
  "last_occurrence name fs =
     (case filter (\<lambda>fld. name_of fld = Some name) fs of
        [] \<Rightarrow> None
      | x # xs \<Rightarrow> field_value (last (x # xs)))"

text \<open>The year of a timestamp as the specification words it: format A first, format B
  on failure, no year when both fail.\<close>

definition year_of :: "string \<Rightarrow> int option" where
  "year_of c =
     (case strptime c format_A of
        Inr dt \<Rightarrow> Some (year dt)
      | Inl _ \<Rightarrow> (case strptime c format_B of Inr dt \<Rightarrow> Some (year dt) | Inl _ \<Rightarrow> None))"

text \<open>The records that the lines of a file hold, and the union over the selected files
  in listing order.\<close>

fun records_of_line :: "line \<Rightarrow> entry list" where
  "records_of_line (Array xs) = xs"
| "records_of_line (Single x) = [x]"
| "records_of_line (Malformed m) = []"

definition records_of_files :: "(string \<times> line list) list \<Rightarrow> entry list" where
  "records_of_files fs = concat (map (\<lambda>f. concat (map records_of_line (snd f))) fs)"

definition union_records :: "listing \<Rightarrow> entry list" where
  "union_records ls = records_of_files (split_files_of ls)"

text \<open>The file writes among the effects.\<close>

fun is_json_write :: "event \<Rightarrow> bool" where
  "is_json_write (WriteJson path d) = True"
| "is_json_write (WriteXlsx path st) = False"
| "is_json_write (Log r) = False"

fun is_write :: "event \<Rightarrow> bool" where
  "is_write (WriteJson path d) = True"
| "is_write (WriteXlsx path st) = True"
| "is_write (Log r) = False"

text \<open>The value a variable holds after the loop, from any starting value.\<close>

definition resolve :: "string \<Rightarrow> string option \<Rightarrow> field list \<Rightarrow> string option" where
  "resolve name v fs =
     (case filter (\<lambda>fld. name_of fld = Some name) fs of
        [] \<Rightarrow> v
      | x # xs \<Rightarrow> field_value (last (x # xs)))"

text \<open>The custom fields that map to the program area.\<close>

definition is_program_area :: "field \<Rightarrow> bool" where
  "is_program_area fld = (name_of fld = Some ''program_area'')"

text \<open>What one ticket adds to the program-area counters and to the spam counter.\<close>

definition contribution :: "entry \<Rightarrow> nat" where
  "contribution e =
     length (filter (\<lambda>fld. is_program_area fld \<and> truthy (field_value fld)) (fields_of e))
     + (if truthy (last_occurrence ''program_area'' (fields_of e)) then 0 else 1)"

text \<open>The year that a ticket is attributed to and the warning that its timestamp
  causes.\<close>

definition parsed_year :: "entry \<Rightarrow> int option" where
  "parsed_year e = (case created_at e of None \<Rightarrow> None | Some c \<Rightarrow> year_of c)"

definition date_warnings :: "entry \<Rightarrow> log_record list" where
  "date_warnings e =
     (case created_at e of
        None \<Rightarrow> []
      | Some c \<Rightarrow>
         (case year_of c of
            Some y \<Rightarrow> []
          | None \<Rightarrow> [LogRecord WARNING (''Invalid date format for entry: '' @ c) []]))"

section \<open>Properties of the counters\<close>

lemma count_of_increment:
  "count_of (increment k d) k' = count_of d k' + (if k' = k then 1 else 0)"
  by (induction d) (auto simp: count_of_def)

lemma sum_values_increment: "sum_values (increment k d) = sum_values d + 1"
  by (induction d) (auto simp: sum_values_def)

section \<open>Tags\<close>

lemma tags_loop_tags_count:
  "count_of (tags_count (tags_loop ts acc)) t = count_of (tags_count acc) t + count_list ts t"
  by (induction ts arbitrary: acc) (auto simp: count_of_increment)

lemma tags_loop_unique_tags: "unique_tags (tags_loop ts acc) = unique_tags acc \<union> set ts"
  by (induction ts arbitrary: acc) auto

lemma field_step_tags:
  "tags_count (fst (field_step fld s)) = tags_count (fst s) \<and>
   unique_tags (fst (field_step fld s)) = unique_tags (fst s)"
  by (cases s) (simp add: field_step_def Let_def split: option.splits)

lemma fields_loop_tags:
  "tags_count (fst (fields_loop fs s)) = tags_count (fst s) \<and>
   unique_tags (fst (fields_loop fs s)) = unique_tags (fst s)"
  by (induction fs arbitrary: s) (simp_all add: field_step_tags)

text \<open>What \<open>count_fields\<close> returns, in terms of the result of the loop over the fields.\<close>

lemma count_fields_unfold:
  assumes "fields_loop (case custom_fields e of None \<Rightarrow> [] | Some l \<Rightarrow> l) (acc, init_locals)
             = (acc', loc)"
  shows "count_fields e acc =
           (if \<not> truthy (program_area loc)
            then acc'\<lparr>spam_ticket_count := spam_ticket_count acc' + 1\<rparr> else acc')"
  using assms by (simp add: count_fields_def)

lemma count_fields_tags:
  "tags_count (count_fields e acc) = tags_count acc \<and>
   unique_tags (count_fields e acc) = unique_tags acc"
proof -
  define fs where "fs = (case custom_fields e of None \<Rightarrow> [] | Some l \<Rightarrow> l)"
  obtain acc' loc where fl: "fields_loop fs (acc, init_locals) = (acc', loc)"
    by (cases "fields_loop fs (acc, init_locals)")
  have "tags_count acc' = tags_count acc \<and> unique_tags acc' = unique_tags acc"
    using fields_loop_tags [of fs "(acc, init_locals)"] fl by simp
  then show ?thesis
    using count_fields_unfold [OF fl [unfolded fs_def]] by simp
qed

lemma count_year_tags:
  "tags_count (fst (count_year e s)) = tags_count (fst s) \<and>
   unique_tags (fst (count_year e s)) = unique_tags (fst s)"
  by (cases s) (simp add: count_year_def split: option.splits sum.splits error.splits)

lemma count_tags_eq: "count_tags e acc = tags_loop (tags_of e) acc"
  by (simp add: count_tags_def tags_of_def split: option.splits)

section \<open>Loading and collating\<close>

lemma lines_loop_fst:
  "fst (lines_loop fp ls s) = fst s @ concat (map records_of_line ls)"
  by (induction ls arbitrary: s) (auto split: prod.splits line.splits)

lemma lines_loop_writes:
  "filter is_write (snd (lines_loop fp ls s)) = filter is_write (snd s)"
  by (induction ls arbitrary: s) (auto split: prod.splits line.splits)

lemma process_file_fst: "fst (process_file fp ls tr) = concat (map records_of_line ls)"
  by (simp add: process_file_def lines_loop_fst)

lemma process_file_writes:
  "filter is_write (snd (process_file fp ls tr)) = filter is_write tr"
  by (simp add: process_file_def lines_loop_writes info_def)

lemma is_json_write_Log [simp]: "filter is_json_write (map Log lg) = []"
  by (induction lg) auto

lemma lines_loop_json_writes:
  "filter is_json_write (snd (lines_loop fp ls s)) = filter is_json_write (snd s)"
  by (induction ls arbitrary: s) (auto split: prod.splits line.splits)

lemma process_file_json_writes:
  "filter is_json_write (snd (process_file fp ls tr)) = filter is_json_write tr"
  by (simp add: process_file_def lines_loop_json_writes info_def)

lemma files_loop_fst:
  "fst (files_loop dir fs s) = fst s @ records_of_files fs"
proof (induction fs arbitrary: s)
  case Nil
  show ?case by (simp add: records_of_files_def)
next
  case (Cons f fs)
  obtain all_data tr where s: "s = (all_data, tr)" by (cases s)
  obtain filename lines where f: "f = (filename, lines)" by (cases f)
  obtain d tr1 where pf: "process_file (path_join dir filename) lines tr = (d, tr1)"
    by (cases "process_file (path_join dir filename) lines tr")
  have d: "d = concat (map records_of_line lines)"
    using process_file_fst [of "path_join dir filename" lines tr] pf by simp
  show ?case
    by (simp add: Cons.IH s f pf d records_of_files_def Let_def split: prod.splits)
qed

lemma files_loop_json_writes:
  "filter is_json_write (snd (files_loop dir fs s)) = filter is_json_write (snd s)"
proof (induction fs arbitrary: s)
  case Nil
  show ?case by simp
next
  case (Cons f fs)
  obtain all_data tr where s: "s = (all_data, tr)" by (cases s)
  obtain filename lines where f: "f = (filename, lines)" by (cases f)
  obtain d tr1 where pf: "process_file (path_join dir filename) lines tr = (d, tr1)"
    by (cases "process_file (path_join dir filename) lines tr")
  have t: "filter is_json_write tr1 = filter is_json_write tr"
    using process_file_json_writes [of "path_join dir filename" lines tr] pf by simp
  show ?case
    by (simp add: Cons.IH s f pf t write_analysis_to_excel_def info_def Let_def split: prod.splits)
qed


lemma validation_checks_fst:
  "fst (validation_checks st tr) =
     (if total_tickets st \<noteq> sum_values (program_area_count st) + spam_ticket_count st
      then Inl (ValueError ''Validation failed for combined data.'')
      else if total_tickets st = spam_ticket_count st
      then Inl (ValueError ''All tickets are considered spam.'')
      else Inr ())"
  by (simp add: validation_checks_def Let_def)

lemma validation_checks_json_writes:
  "filter is_json_write (snd (validation_checks st tr)) = filter is_json_write tr"
  by (simp add: validation_checks_def Let_def info_def)

lemma merge_output_persisted:
  "persisted (merge_output out d w) =
     (case persisted w of
        None \<Rightarrow> Some d
      | Some ex \<Rightarrow> if length ex = length d then Some ex else Some d)"
  by (simp add: merge_output_def Let_def split: option.splits)

lemma merge_output_json_writes:
  "filter is_json_write (trace (merge_output out d w)) =
     filter is_json_write (trace w) @
     (case persisted w of
        None \<Rightarrow> [WriteJson out d]
      | Some ex \<Rightarrow> if length ex = length d then [] else [WriteJson out d])"
  by (simp add: merge_output_def Let_def info_def split: option.splits)

text \<open>The run with at least one selected file, in terms of its parts.\<close>

lemma collate_nonempty:
  fixes inp out comb :: string and ls :: listing and w :: world
  assumes ne: "split_files_of ls \<noteq> []"
  defines "d \<equiv> union_records ls"
  defines "tr1 \<equiv> snd (files_loop inp (split_files_of ls) ([], trace w))"
  defines "w2 \<equiv> merge_output out d (w\<lparr>trace := tr1\<rparr>)"
  defines "st \<equiv> fst (analyze_data d)"
  defines "tr3 \<equiv> write_analysis_to_excel st comb (trace w2 @ map Log (snd (analyze_data d)))"
  shows "collate_and_analyze_json_files inp out comb ls w =
           (fst (validation_checks st tr3), w2\<lparr>trace := snd (validation_checks st tr3)\<rparr>)"
proof -
  obtain all_data t where fl: "files_loop inp (split_files_of ls) ([], trace w) = (all_data, t)"
    by (cases "files_loop inp (split_files_of ls) ([], trace w)")
  have ad: "all_data = d"
    using files_loop_fst [of inp "split_files_of ls" "([], trace w)"] fl
    by (simp add: d_def union_records_def)
  have t: "t = tr1" using fl by (simp add: tr1_def)
  obtain stats lg where an: "analyze_data d = (stats, lg)" by (cases "analyze_data d")
  obtain r tr4 where vc: "validation_checks st tr3 = (r, tr4)"
    by (cases "validation_checks st tr3")
  show ?thesis
    using ne vc an
    by (simp add: collate_and_analyze_json_files_def fl ad t w2_def [symmetric] st_def tr3_def
        Let_def)
qed

lemma collate_empty:
  assumes "split_files_of ls = []"
  shows "collate_and_analyze_json_files inp out comb ls w =
           (Inr (), w\<lparr>trace := trace w @
              [Log (LogRecord ERROR ''No JSON files found in the input folder.'' [])]\<rparr>)"
  using assms by (simp add: collate_and_analyze_json_files_def)

lemma split_files_of_filtered: "split_files_of (split_files_of ls) = split_files_of ls"
  by (simp add: split_files_of_def)

text \<open>The run reads its listing through the selected files only.\<close>

lemma collate_same_split_files:
  assumes "split_files_of ls' = split_files_of ls"
  shows "collate_and_analyze_json_files inp out comb ls' w =
           collate_and_analyze_json_files inp out comb ls w"
proof (cases "split_files_of ls = []")
  case True
  then show ?thesis using assms by (simp add: collate_empty)
next
  case False
  then have ne: "split_files_of ls' \<noteq> []" using assms by simp
  show ?thesis
    by (simp add: collate_nonempty [OF ne] collate_nonempty [OF False] assms union_records_def)
qed

text \<open>
  Claim C7. When the input folder holds no files, the run stops at once: it returns to its
  caller after logging the error "No JSON files found in the input folder.", the output
  file is as it was (no merged file is written) and the run has written no file at all
  (no merged file, no report), since nothing was loaded or aggregated.
\<close>

theorem empty_folder_aborts:
  "collate_and_analyze_json_files inp out comb [] w =
     (Inr (), w\<lparr>trace := trace w @
        [Log (LogRecord ERROR ''No JSON files found in the input folder.'' [])]\<rparr>)
   \<and> persisted (snd (collate_and_analyze_json_files inp out comb [] w)) = persisted w
   \<and> filter is_write (trace (snd (collate_and_analyze_json_files inp out comb [] w)))
       = filter is_write (trace w)"
  by (simp add: collate_and_analyze_json_files_def split_files_of_def)

text \<open>
  Claim C10. Only the files whose names end in \<^verbatim>\<open>.json\<close> are loaded and merged: a run on
  a listing gives the result, the output file and the effects of the run on the listing
  reduced to those files. A folder in which no name ends in \<^verbatim>\<open>.json\<close> is treated as
  the empty folder is: the run logs the no-input error and returns, with nothing
  aggregated or written, exactly as the run on the empty listing does.
\<close>

theorem only_json_files_loaded:
  "collate_and_analyze_json_files inp out comb ls w =
     collate_and_analyze_json_files inp out comb (split_files_of ls) w
   \<and> ((\<forall>f \<in> set ls. \<not> endswith (fst f) ''.json'') \<longrightarrow>
        collate_and_analyze_json_files inp out comb ls w =
          (Inr (), w\<lparr>trace := trace w @
             [Log (LogRecord ERROR ''No JSON files found in the input folder.'' [])]\<rparr>)
        \<and> collate_and_analyze_json_files inp out comb ls w =
            collate_and_analyze_json_files inp out comb [] w)"
proof -
  have a: "collate_and_analyze_json_files inp out comb ls w =
     collate_and_analyze_json_files inp out comb (split_files_of ls) w"
    by (rule collate_same_split_files [symmetric]) (rule split_files_of_filtered)
  have b: "collate_and_analyze_json_files inp out comb ls w =
          (Inr (), w\<lparr>trace := trace w @
             [Log (LogRecord ERROR ''No JSON files found in the input folder.'' [])]\<rparr>)
        \<and> collate_and_analyze_json_files inp out comb ls w =
            collate_and_analyze_json_files inp out comb [] w"
    if h: "\<forall>f \<in> set ls. \<not> endswith (fst f) ''.json''"
  proof -
    have e: "split_files_of ls = []" using h by (simp add: split_files_of_def)
    have e': "split_files_of [] = split_files_of ls"
      using e by (simp add: split_files_of_def)
    show ?thesis using collate_empty [OF e] collate_same_split_files [OF e'] by simp
  qed
  show ?thesis using a b by blast
qed

theorem only_json_files_loaded_witness:
  "\<not> endswith ''notes.txt'' ''.json''
   \<and> collate_and_analyze_json_files ''json_files'' ''combined.json'' ''combined_analysis.xlsx''
        [(''notes.txt'', [Single \<lparr>created_at = None, tags = None, custom_fields = None\<rparr>])]
        \<lparr>persisted = None, trace = []\<rparr>
       = (Inr (),
          \<lparr>persisted = None,
           trace = [Log (LogRecord ERROR ''No JSON files found in the input folder.'' [])]\<rparr>)"
proof -
  let ?ls = "[(''notes.txt'', [Single \<lparr>created_at = None, tags = None, custom_fields = None\<rparr>])]"
  let ?w = "\<lparr>persisted = None, trace = []\<rparr>"
  have ne: "\<not> endswith ''notes.txt'' ''.json''" by (simp add: endswith_def)
  then have h: "\<forall>f \<in> set ?ls. \<not> endswith (fst f) ''.json''" by simp
  have "collate_and_analyze_json_files ''json_files'' ''combined.json''
          ''combined_analysis.xlsx'' ?ls ?w =
        (Inr (), ?w\<lparr>trace := trace ?w @
           [Log (LogRecord ERROR ''No JSON files found in the input folder.'' [])]\<rparr>)"
    using only_json_files_loaded
      [of "''json_files''" "''combined.json''" "''combined_analysis.xlsx''" ?ls ?w] h
    by blast
  then show ?thesis using ne by simp
qed

section \<open>Validation\<close>

lemma analyze_data_Nil:
  "total_tickets (fst (analyze_data [])) = 0 \<and>
   spam_ticket_count (fst (analyze_data [])) = 0 \<and>
   program_area_count (fst (analyze_data [])) = []"
  by (simp add: analyze_data_def init_accum_def)

lemma analyze_data_total: "total_tickets (fst (analyze_data es)) = length es"
  by (simp add: analyze_data_def split: prod.splits)

lemma validation_checks_passed_first:
  assumes "total_tickets st = sum_values (program_area_count st) + spam_ticket_count st"
  shows "info ''Validation passed (1/2): Total tickets match the sum of program area tickets and spam tickets.''
           \<in> set (snd (validation_checks st tr))"
  using assms by (simp add: validation_checks_def Let_def)

text \<open>
  Claim C9. When input files are present but the merged union holds no record, the total
  and the spam count are both 0: the first validation check passes (its success is
  logged) and the second one raises the error "All tickets are considered spam.", so the
  run ends as a validation failure.
\<close>

theorem empty_union_fails_second_check:
  assumes "split_files_of ls \<noteq> []" and "union_records ls = []"
  shows "fst (collate_and_analyze_json_files inp out comb ls w)
           = Inl (ValueError ''All tickets are considered spam.'')
         \<and> info ''Validation passed (1/2): Total tickets match the sum of program area tickets and spam tickets.''
             \<in> set (trace (snd (collate_and_analyze_json_files inp out comb ls w)))
         \<and> total_tickets (fst (analyze_data (union_records ls))) = 0
         \<and> spam_ticket_count (fst (analyze_data (union_records ls))) = 0"
proof -
  have st: "total_tickets (fst (analyze_data (union_records ls))) = 0"
    "spam_ticket_count (fst (analyze_data (union_records ls))) = 0"
    "program_area_count (fst (analyze_data (union_records ls))) = []"
    using analyze_data_Nil assms(2) by simp_all
  have ok: "total_tickets (fst (analyze_data (union_records ls)))
      = sum_values (program_area_count (fst (analyze_data (union_records ls))))
        + spam_ticket_count (fst (analyze_data (union_records ls)))"
    by (simp add: st sum_values_def)
  show ?thesis
    using validation_checks_passed_first [OF ok]
    by (simp add: collate_nonempty [OF assms(1)] validation_checks_fst st sum_values_def)
qed

theorem empty_union_fails_second_check_witness:
  "split_files_of [(''a.json'', [Malformed ''Expecting value'']), (''b.json'', [])] \<noteq> []
   \<and> union_records [(''a.json'', [Malformed ''Expecting value'']), (''b.json'', [])] = []
   \<and> fst (collate_and_analyze_json_files ''json_files'' ''combined.json'' ''combined_analysis.xlsx''
        [(''a.json'', [Malformed ''Expecting value'']), (''b.json'', [])]
        \<lparr>persisted = None, trace = []\<rparr>)
       = Inl (ValueError ''All tickets are considered spam.'')"
proof -
  have a: "split_files_of [(''a.json'', [Malformed ''Expecting value'']), (''b.json'', [])] \<noteq> []"
    by (simp add: split_files_of_def endswith_def)
  have b: "union_records [(''a.json'', [Malformed ''Expecting value'']), (''b.json'', [])] = []"
    by (simp add: union_records_def records_of_files_def split_files_of_def endswith_def)
  show ?thesis
    using a b empty_union_fails_second_check [OF a b] by simp
qed

text \<open>
  Claim C8. For a run with input files, on the statistics of the union: when there is at
  least one ticket and the spam count equals the total, the run raises one of the two
  validation errors. The first check raises "Validation failed for combined data." exactly
  when the total differs from the program-area sum plus the spam count; the second raises
  "All tickets are considered spam." exactly when the first check passes and the total
  equals the spam count; the two errors are distinct; and the run ends without an error
  exactly when both checks pass, in which case its last log record reports success.
\<close>

lemma validation_checks_last:
  "last (snd (validation_checks st tr)) = info ''Collation and analysis completed successfully.''
     \<longleftrightarrow> total_tickets st = sum_values (program_area_count st) + spam_ticket_count st
         \<and> total_tickets st \<noteq> spam_ticket_count st"
  by (simp add: validation_checks_def Let_def info_def)

theorem validation_outcomes:
  assumes "split_files_of ls \<noteq> []"
  shows
    "(0 < total_tickets (fst (analyze_data (union_records ls)))
        \<and> spam_ticket_count (fst (analyze_data (union_records ls)))
            = total_tickets (fst (analyze_data (union_records ls)))
      \<longrightarrow> fst (collate_and_analyze_json_files inp out comb ls w)
            = Inl (ValueError ''Validation failed for combined data.'')
          \<or> fst (collate_and_analyze_json_files inp out comb ls w)
            = Inl (ValueError ''All tickets are considered spam.''))
     \<and> (fst (collate_and_analyze_json_files inp out comb ls w)
            = Inl (ValueError ''Validation failed for combined data.'')
          \<longleftrightarrow> total_tickets (fst (analyze_data (union_records ls)))
              \<noteq> sum_values (program_area_count (fst (analyze_data (union_records ls))))
                + spam_ticket_count (fst (analyze_data (union_records ls))))
     \<and> (fst (collate_and_analyze_json_files inp out comb ls w)
            = Inl (ValueError ''All tickets are considered spam.'')
          \<longleftrightarrow> total_tickets (fst (analyze_data (union_records ls)))
              = sum_values (program_area_count (fst (analyze_data (union_records ls))))
                + spam_ticket_count (fst (analyze_data (union_records ls)))
            \<and> total_tickets (fst (analyze_data (union_records ls)))
              = spam_ticket_count (fst (analyze_data (union_records ls))))
     \<and> (fst (collate_and_analyze_json_files inp out comb ls w) = Inr ()
          \<longleftrightarrow> total_tickets (fst (analyze_data (union_records ls)))
              = sum_values (program_area_count (fst (analyze_data (union_records ls))))
                + spam_ticket_count (fst (analyze_data (union_records ls)))
            \<and> total_tickets (fst (analyze_data (union_records ls)))
              \<noteq> spam_ticket_count (fst (analyze_data (union_records ls))))
     \<and> ValueError ''Validation failed for combined data.''
          \<noteq> ValueError ''All tickets are considered spam.''
     \<and> (fst (collate_and_analyze_json_files inp out comb ls w) = Inr ()
          \<longleftrightarrow> last (trace (snd (collate_and_analyze_json_files inp out comb ls w)))
              = info ''Collation and analysis completed successfully.'')"
  by (simp add: collate_nonempty [OF assms] validation_checks_fst validation_checks_last)

lemma one_json_file: "split_files_of [(''a.json'', l)] = [(''a.json'', l)]"
  by (simp add: split_files_of_def endswith_def)

theorem validation_outcomes_witness:
  "split_files_of [(''a.json'', [Single \<lparr>created_at = None, tags = None,
        custom_fields = None\<rparr>])] \<noteq> []
   \<and> 0 < total_tickets (fst (analyze_data (union_records
        [(''a.json'', [Single \<lparr>created_at = None, tags = None, custom_fields = None\<rparr>])])))
   \<and> spam_ticket_count (fst (analyze_data (union_records
        [(''a.json'', [Single \<lparr>created_at = None, tags = None, custom_fields = None\<rparr>])])))
       = total_tickets (fst (analyze_data (union_records
        [(''a.json'', [Single \<lparr>created_at = None, tags = None, custom_fields = None\<rparr>])])))
   \<and> fst (collate_and_analyze_json_files ''json_files'' ''combined.json'' ''combined_analysis.xlsx''
        [(''a.json'', [Single \<lparr>created_at = None, tags = None, custom_fields = None\<rparr>])]
        \<lparr>persisted = None, trace = []\<rparr>)
       = Inl (ValueError ''All tickets are considered spam.'')"
proof -
  let ?ls = "[(''a.json'', [Single \<lparr>created_at = None, tags = None, custom_fields = None\<rparr>])]"
  have ne: "split_files_of ?ls \<noteq> []" by (simp add: one_json_file)
  have u: "union_records ?ls = [\<lparr>created_at = None, tags = None, custom_fields = None\<rparr>]"
    by (simp add: union_records_def records_of_files_def one_json_file)
  have st: "total_tickets (fst (analyze_data (union_records ?ls))) = 1"
    "spam_ticket_count (fst (analyze_data (union_records ?ls))) = 1"
    "program_area_count (fst (analyze_data (union_records ?ls))) = []"
    by (simp_all add: u analyze_data_def analyze_entry_def count_year_def count_tags_def
        count_fields_def init_accum_def init_locals_def)
  show ?thesis
    using ne validation_outcomes [OF ne, of "''json_files''" "''combined.json''"
        "''combined_analysis.xlsx''" "\<lparr>persisted = None, trace = []\<rparr>"]
    by (simp add: st sum_values_def)
qed

section \<open>The merged output file\<close>

lemma collate_persisted:
  assumes "split_files_of ls \<noteq> []"
  shows "persisted (snd (collate_and_analyze_json_files inp out comb ls w)) =
           (case persisted w of
              None \<Rightarrow> Some (union_records ls)
            | Some ex \<Rightarrow> if length ex = length (union_records ls) then Some ex
                         else Some (union_records ls))"
  by (simp add: collate_nonempty [OF assms] merge_output_persisted)

lemma collate_json_writes:
  assumes "split_files_of ls \<noteq> []"
  shows "filter is_json_write (trace (snd (collate_and_analyze_json_files inp out comb ls w))) =
           filter is_json_write (trace w) @
           (case persisted w of
              None \<Rightarrow> [WriteJson out (union_records ls)]
            | Some ex \<Rightarrow> if length ex = length (union_records ls) then []
                         else [WriteJson out (union_records ls)])"
  by (simp add: collate_nonempty [OF assms] validation_checks_json_writes
      write_analysis_to_excel_def info_def merge_output_json_writes files_loop_json_writes)

text \<open>
  Claim C6. For a run with input files: when the output file exists and holds as many
  records as the fresh union, it is left as it is and no merged file is written; when it
  exists with another record count, it is overwritten with the fresh union; when it does
  not exist, the fresh union is written. Collating the unchanged source directory again
  is a second run whose listing selects the same files with the same lines as the first
  (the directory may hold other files by then, such as the workbooks of the first run),
  and that finds the output file as the first run left it: such a run leaves the output
  file identical and writes no merged file. (The output file is compared by record count
  only.)
\<close>

theorem merge_by_record_count:
  assumes "split_files_of ls \<noteq> []"
  shows
    "persisted (snd (collate_and_analyze_json_files inp out comb ls w)) =
       (case persisted w of
          None \<Rightarrow> Some (union_records ls)
        | Some ex \<Rightarrow> if length ex = length (union_records ls) then Some ex
                     else Some (union_records ls))
     \<and> filter is_json_write (trace (snd (collate_and_analyze_json_files inp out comb ls w))) =
         filter is_json_write (trace w) @
         (case persisted w of
            None \<Rightarrow> [WriteJson out (union_records ls)]
          | Some ex \<Rightarrow> if length ex = length (union_records ls) then []
                       else [WriteJson out (union_records ls)])
     \<and> (split_files_of ls' = split_files_of ls
          \<and> persisted w' = persisted (snd (collate_and_analyze_json_files inp out comb ls w))
        \<longrightarrow> persisted (snd (collate_and_analyze_json_files inp out comb ls' w')) = persisted w'
            \<and> filter is_json_write
                 (trace (snd (collate_and_analyze_json_files inp out comb ls' w')))
               = filter is_json_write (trace w'))"
proof -
  let ?w1 = "snd (collate_and_analyze_json_files inp out comb ls w)"
  have p1: "persisted ?w1 =
       (case persisted w of
          None \<Rightarrow> Some (union_records ls)
        | Some ex \<Rightarrow> if length ex = length (union_records ls) then Some ex
                     else Some (union_records ls))"
    by (rule collate_persisted [OF assms])
  obtain x where x: "persisted ?w1 = Some x" "length x = length (union_records ls)"
    using p1 by (cases "persisted w") (auto split: if_splits)
  have second: "persisted (snd (collate_and_analyze_json_files inp out comb ls' w'))
        = persisted w'
      \<and> filter is_json_write (trace (snd (collate_and_analyze_json_files inp out comb ls' w')))
        = filter is_json_write (trace w')"
    if sf: "split_files_of ls' = split_files_of ls" and pw: "persisted w' = persisted ?w1"
  proof -
    have ne': "split_files_of ls' \<noteq> []" using assms sf by simp
    have u: "union_records ls' = union_records ls" by (simp add: union_records_def sf)
    have pw': "persisted w' = Some x" using pw x by simp
    show ?thesis
      using collate_persisted [OF ne', of inp out comb w']
        collate_json_writes [OF ne', of inp out comb w'] x
      by (simp add: u pw')
  qed
  show ?thesis
    using p1 collate_json_writes [OF assms, of inp out comb w] second by blast
qed

theorem merge_by_record_count_witness:
  "split_files_of [(''a.json'', [Single \<lparr>created_at = None, tags = None,
        custom_fields = None\<rparr>])] \<noteq> []
   \<and> persisted (snd (collate_and_analyze_json_files ''json_files'' ''combined.json''
        ''combined_analysis.xlsx''
        [(''a.json'', [Single \<lparr>created_at = None, tags = None, custom_fields = None\<rparr>])]
        \<lparr>persisted = None, trace = []\<rparr>))
       = Some [\<lparr>created_at = None, tags = None, custom_fields = None\<rparr>]
   \<and> split_files_of [(''a.json'', [Single \<lparr>created_at = None, tags = None,
        custom_fields = None\<rparr>]), (''a_analysis.xlsx'', [])]
       = split_files_of [(''a.json'', [Single \<lparr>created_at = None, tags = None,
        custom_fields = None\<rparr>])]
   \<and> persisted (snd (collate_and_analyze_json_files ''json_files'' ''combined.json''
        ''combined_analysis.xlsx''
        [(''a.json'', [Single \<lparr>created_at = None, tags = None, custom_fields = None\<rparr>]),
         (''a_analysis.xlsx'', [])]
        \<lparr>persisted = Some [\<lparr>created_at = None, tags = None, custom_fields = None\<rparr>],
         trace = []\<rparr>))
       = Some [\<lparr>created_at = None, tags = None, custom_fields = None\<rparr>]
   \<and> filter is_json_write (trace (snd (collate_and_analyze_json_files ''json_files''
        ''combined.json'' ''combined_analysis.xlsx''
        [(''a.json'', [Single \<lparr>created_at = None, tags = None, custom_fields = None\<rparr>]),
         (''a_analysis.xlsx'', [])]
        \<lparr>persisted = Some [\<lparr>created_at = None, tags = None, custom_fields = None\<rparr>],
         trace = []\<rparr>)))
       = []"
proof -
  let ?e = "\<lparr>created_at = None, tags = None, custom_fields = None\<rparr>"
  let ?ls = "[(''a.json'', [Single ?e])]"
  let ?ls' = "[(''a.json'', [Single ?e]), (''a_analysis.xlsx'', [])]"
  let ?w = "\<lparr>persisted = None, trace = []\<rparr>"
  let ?w' = "\<lparr>persisted = Some [?e], trace = []\<rparr>"
  let ?run = "collate_and_analyze_json_files ''json_files'' ''combined.json''
        ''combined_analysis.xlsx''"
  have ne: "split_files_of ?ls \<noteq> []" by (simp add: one_json_file)
  have sf: "split_files_of ?ls' = split_files_of ?ls"
    by (simp add: split_files_of_def endswith_def)
  have u: "union_records ?ls = [?e]"
    by (simp add: union_records_def records_of_files_def one_json_file)
  note m = merge_by_record_count [OF ne, of "''json_files''" "''combined.json''"
        "''combined_analysis.xlsx''" ?w ?ls' ?w']
  have p1: "persisted (snd (?run ?ls ?w)) = Some [?e]"
    using m by (simp add: u)
  have pw: "persisted ?w' = persisted (snd (?run ?ls ?w))"
    by (simp add: p1)
  have second: "persisted (snd (?run ?ls' ?w')) = persisted ?w'
      \<and> filter is_json_write (trace (snd (?run ?ls' ?w'))) = filter is_json_write (trace ?w')"
    using m sf pw by blast
  show ?thesis
    using ne sf p1 second by simp
qed

section \<open>Custom fields and the spam counter\<close>

lemma field_step_name:
  "field_step fld (acc, loc) =
     (if name_of fld = Some ''program_area'' then
        (if truthy (field_value fld) then
           acc\<lparr>program_area_count := increment (the (field_value fld)) (program_area_count acc),
               unique_program_areas := insert (the (field_value fld)) (unique_program_areas acc)\<rparr>
         else acc, loc\<lparr>program_area := field_value fld\<rparr>)
      else if name_of fld = Some ''segment'' then
        (if truthy (field_value fld) then
           acc\<lparr>segment_count := increment (the (field_value fld)) (segment_count acc),
               unique_segments := insert (the (field_value fld)) (unique_segments acc)\<rparr>
         else acc, loc\<lparr>segment := field_value fld\<rparr>)
      else if name_of fld = Some ''channel'' then
        (if truthy (field_value fld) then
           acc\<lparr>channel_count := increment (the (field_value fld)) (channel_count acc),
               unique_channels := insert (the (field_value fld)) (unique_channels acc)\<rparr>
         else acc, loc\<lparr>channel := field_value fld\<rparr>)
      else if name_of fld = Some ''type_of_inquiry'' then
        (if truthy (field_value fld) then
           acc\<lparr>type_of_inquiry_count := increment (the (field_value fld)) (type_of_inquiry_count acc),
               unique_types_of_inquiry := insert (the (field_value fld)) (unique_types_of_inquiry acc)\<rparr>
         else acc, loc\<lparr>type_of_inquiry := field_value fld\<rparr>)
      else (acc, loc))"
  by (cases "field_value fld") (simp_all add: field_step_def name_of_def Let_def)

lemma resolve_Nil: "resolve name v [] = v"
  by (simp add: resolve_def)

lemma resolve_Cons:
  "resolve name v (fld # fs) =
     resolve name (if name_of fld = Some name then field_value fld else v) fs"
  by (simp add: resolve_def split: list.splits)

lemma fields_loop_locals:
  "program_area (snd (fields_loop fs (acc, loc))) = resolve ''program_area'' (program_area loc) fs
   \<and> segment (snd (fields_loop fs (acc, loc))) = resolve ''segment'' (segment loc) fs
   \<and> channel (snd (fields_loop fs (acc, loc))) = resolve ''channel'' (channel loc) fs
   \<and> type_of_inquiry (snd (fields_loop fs (acc, loc)))
       = resolve ''type_of_inquiry'' (type_of_inquiry loc) fs"
proof (induction fs arbitrary: acc loc)
  case Nil
  show ?case by (simp add: resolve_Nil)
next
  case (Cons fld fs)
  obtain acc' loc' where st: "field_step fld (acc, loc) = (acc', loc')"
    by (cases "field_step fld (acc, loc)")
  have l: "program_area loc' = (if name_of fld = Some ''program_area'' then field_value fld else program_area loc)"
    "segment loc' = (if name_of fld = Some ''segment'' then field_value fld else segment loc)"
    "channel loc' = (if name_of fld = Some ''channel'' then field_value fld else channel loc)"
    "type_of_inquiry loc' = (if name_of fld = Some ''type_of_inquiry'' then field_value fld else type_of_inquiry loc)"
    using st by (auto simp: field_step_name split: if_splits)
  show ?case
    using Cons.IH [of acc' loc'] by (simp add: st resolve_Cons l)
qed

lemma resolve_None: "resolve name None fs = last_occurrence name fs"
  by (simp add: resolve_def last_occurrence_def)

lemma field_step_spam:
  "spam_ticket_count (fst (field_step fld s)) = spam_ticket_count (fst s)"
  by (cases s) (simp add: field_step_name)

lemma fields_loop_spam:
  "spam_ticket_count (fst (fields_loop fs s)) = spam_ticket_count (fst s)"
  by (induction fs arbitrary: s) (simp_all add: field_step_spam)


lemma fields_loop_append:
  "fields_loop (fs @ gs) s = fields_loop gs (fields_loop fs s)"
  by (induction fs arbitrary: s) simp_all

lemma tags_loop_spam: "spam_ticket_count (tags_loop ts acc) = spam_ticket_count acc"
  by (induction ts arbitrary: acc) simp_all

lemma count_tags_spam: "spam_ticket_count (count_tags e acc) = spam_ticket_count acc"
  by (simp add: count_tags_eq tags_loop_spam)

lemma count_year_spam: "spam_ticket_count (fst (count_year e s)) = spam_ticket_count (fst s)"
  by (cases s) (simp add: count_year_def split: option.splits sum.splits error.splits)

lemma count_fields_spam:
  "spam_ticket_count (count_fields e acc) =
     spam_ticket_count acc
       + (if truthy (last_occurrence ''program_area'' (fields_of e)) then 0 else 1)"
proof -
  obtain acc' loc where fl: "fields_loop (fields_of e) (acc, init_locals) = (acc', loc)"
    by (cases "fields_loop (fields_of e) (acc, init_locals)")
  have sp: "spam_ticket_count acc' = spam_ticket_count acc"
    using fields_loop_spam [of "fields_of e" "(acc, init_locals)"] fl by simp
  have pa: "program_area loc = last_occurrence ''program_area'' (fields_of e)"
    using fields_loop_locals [of "fields_of e" acc init_locals] fl
    by (simp add: resolve_None init_locals_def)
  show ?thesis
    using count_fields_unfold [OF fl [unfolded fields_of_def]] by (simp add: sp pa)
qed

lemma analyze_entry_spam:
  "spam_ticket_count (fst (analyze_entry e (acc, lg))) =
     spam_ticket_count acc
       + (if truthy (last_occurrence ''program_area'' (fields_of e)) then 0 else 1)"
proof -
  obtain acc1 lg1 where cy: "count_year e (acc, lg) = (acc1, lg1)"
    by (cases "count_year e (acc, lg)")
  have "spam_ticket_count acc1 = spam_ticket_count acc"
    using count_year_spam [of e "(acc, lg)"] cy by simp
  then show ?thesis
    by (simp add: analyze_entry_def cy count_fields_spam count_tags_spam)
qed

lemma last_occurrence_alt:
  "last_occurrence name fs =
     (if filter (\<lambda>fld. name_of fld = Some name) fs = [] then None
      else field_value (last (filter (\<lambda>fld. name_of fld = Some name) fs)))"
  by (simp add: last_occurrence_def split: list.splits)

text \<open>
  What the loop over the custom fields does for the variables and the spam counter: the
  variable of a category ends as the value of the last field that maps to the category,
  and the spam counter grows by one exactly when the resolved program-area value is empty
  or absent.
\<close>

lemma last_occurrence_wins_and_spam:
  "program_area (snd (fields_loop (fields_of e) (acc, init_locals)))
     = last_occurrence ''program_area'' (fields_of e)
   \<and> segment (snd (fields_loop (fields_of e) (acc, init_locals)))
     = last_occurrence ''segment'' (fields_of e)
   \<and> channel (snd (fields_loop (fields_of e) (acc, init_locals)))
     = last_occurrence ''channel'' (fields_of e)
   \<and> type_of_inquiry (snd (fields_loop (fields_of e) (acc, init_locals)))
     = last_occurrence ''type_of_inquiry'' (fields_of e)
   \<and> last_occurrence name (fs @ [fld])
     = (if name_of fld = Some name then field_value fld else last_occurrence name fs)
   \<and> (spam_ticket_count (fst (analyze_entry e (acc, lg))) = spam_ticket_count acc + 1
        \<longleftrightarrow> \<not> truthy (last_occurrence ''program_area'' (fields_of e)))
   \<and> (spam_ticket_count (fst (analyze_entry e (acc, lg))) = spam_ticket_count acc
        \<longleftrightarrow> truthy (last_occurrence ''program_area'' (fields_of e)))"
proof -
  have a: "last_occurrence name (fs @ [fld])
     = (if name_of fld = Some name then field_value fld else last_occurrence name fs)"
    by (simp add: last_occurrence_alt)
  show ?thesis
    using fields_loop_locals [of "fields_of e" acc init_locals] a
    by (simp add: resolve_None init_locals_def analyze_entry_spam)
qed

section \<open>Timestamps\<close>

lemma strptime_example:
  "strptime ''2023-05-01T10:00:00.000Z'' format_A =
     Inr \<lparr>year = 2023, month = 5, day = 1, hour = 10, minute = 0, second = 0,
          microsecond = 0, utcoffset = None\<rparr>"
  by code_simp

lemma year_of_example: "year_of ''2023-05-01T10:00:00.000Z'' = Some 2023"
  by (simp add: year_of_def strptime_example)

lemma year_of_not_a_date: "year_of ''not-a-date'' = None"
  by code_simp

lemma count_tags_year:
  "created_at_year_count (count_tags e acc) = created_at_year_count acc"
proof -
  have "created_at_year_count (tags_loop ts a) = created_at_year_count a" for ts a
    by (induction ts arbitrary: a) simp_all
  then show ?thesis by (simp add: count_tags_eq)
qed

lemma field_step_year:
  "created_at_year_count (fst (field_step fld s)) = created_at_year_count (fst s)"
  by (cases s) (simp add: field_step_name)

lemma fields_loop_year:
  "created_at_year_count (fst (fields_loop fs s)) = created_at_year_count (fst s)"
  by (induction fs arbitrary: s) (simp_all add: field_step_year)

lemma count_fields_year:
  "created_at_year_count (count_fields e acc) = created_at_year_count acc"
proof -
  obtain acc' loc where fl: "fields_loop (fields_of e) (acc, init_locals) = (acc', loc)"
    by (cases "fields_loop (fields_of e) (acc, init_locals)")
  have "created_at_year_count acc' = created_at_year_count acc"
    using fields_loop_year [of "fields_of e" "(acc, init_locals)"] fl by simp
  then show ?thesis
    using count_fields_unfold [OF fl [unfolded fields_of_def]] by simp
qed

lemma count_year_eq:
  "count_year e (acc, lg) =
     (case created_at e of
        None \<Rightarrow> (acc, lg)
      | Some c \<Rightarrow>
         (case year_of c of
            Some y \<Rightarrow> (acc\<lparr>created_at_year_count := increment y (created_at_year_count acc)\<rparr>, lg)
          | None \<Rightarrow> (acc, lg @ [LogRecord WARNING (''Invalid date format for entry: '' @ c) []])))"
  by (simp add: count_year_def year_of_def split: option.splits sum.splits error.splits)

section \<open>The total, the program areas and the spam count\<close>

lemmas eval_defs = analyze_data_def analyze_entry_def count_year_def count_tags_def
  count_fields_def field_step_def FIELD_ID_TO_NAME_def init_accum_def init_locals_def
  count_of_def sum_values_def last_occurrence_def name_of_def fields_of_def

text \<open>The exact relation that the code maintains, and the invariant for tickets with at
  most one program-area field.\<close>

lemma field_step_pa_sum:
  "sum_values (program_area_count (fst (field_step fld s))) =
     sum_values (program_area_count (fst s))
       + (if is_program_area fld \<and> truthy (field_value fld) then 1 else 0)"
  by (cases s) (simp add: field_step_name is_program_area_def sum_values_increment)

lemma fields_loop_pa_sum:
  "sum_values (program_area_count (fst (fields_loop fs s))) =
     sum_values (program_area_count (fst s))
       + length (filter (\<lambda>fld. is_program_area fld \<and> truthy (field_value fld)) fs)"
  by (induction fs arbitrary: s) (simp_all add: field_step_pa_sum)

lemma count_fields_pa_sum:
  "sum_values (program_area_count (count_fields e acc)) =
     sum_values (program_area_count acc)
       + length (filter (\<lambda>fld. is_program_area fld \<and> truthy (field_value fld)) (fields_of e))"
proof -
  obtain acc' loc where fl: "fields_loop (fields_of e) (acc, init_locals) = (acc', loc)"
    by (cases "fields_loop (fields_of e) (acc, init_locals)")
  have "sum_values (program_area_count acc') =
     sum_values (program_area_count acc)
       + length (filter (\<lambda>fld. is_program_area fld \<and> truthy (field_value fld)) (fields_of e))"
    using fields_loop_pa_sum [of "fields_of e" "(acc, init_locals)"] fl by simp
  then show ?thesis
    using count_fields_unfold [OF fl [unfolded fields_of_def]] by simp
qed

lemma count_tags_pa: "program_area_count (count_tags e acc) = program_area_count acc"
proof -
  have "program_area_count (tags_loop ts a) = program_area_count a" for ts a
    by (induction ts arbitrary: a) simp_all
  then show ?thesis by (simp add: count_tags_eq)
qed

lemma count_year_pa: "program_area_count (fst (count_year e s)) = program_area_count (fst s)"
  by (cases s) (simp add: count_year_def split: option.splits sum.splits error.splits)

lemma analyze_entry_contribution:
  "sum_values (program_area_count (fst (analyze_entry e (acc, lg))))
     + spam_ticket_count (fst (analyze_entry e (acc, lg)))
   = sum_values (program_area_count acc) + spam_ticket_count acc + contribution e"
proof -
  obtain acc1 lg1 where cy: "count_year e (acc, lg) = (acc1, lg1)"
    by (cases "count_year e (acc, lg)")
  have p: "program_area_count acc1 = program_area_count acc"
    using count_year_pa [of e "(acc, lg)"] cy by simp
  have "sum_values (program_area_count (fst (analyze_entry e (acc, lg))))
      = sum_values (program_area_count acc)
        + length (filter (\<lambda>fld. is_program_area fld \<and> truthy (field_value fld)) (fields_of e))"
    by (simp add: analyze_entry_def cy count_fields_pa_sum count_tags_pa p)
  then show ?thesis
    by (simp add: analyze_entry_spam contribution_def)
qed

lemma entries_loop_contribution:
  "sum_values (program_area_count (fst (entries_loop es s)))
     + spam_ticket_count (fst (entries_loop es s))
   = sum_values (program_area_count (fst s)) + spam_ticket_count (fst s)
     + sum_list (map contribution es)"
proof (induction es arbitrary: s)
  case Nil
  show ?case by simp
next
  case (Cons e es)
  obtain acc lg where s: "s = (acc, lg)" by (cases s)
  show ?case
    using Cons.IH [of "analyze_entry e (acc, lg)"] analyze_entry_contribution [of e acc lg]
    by (simp add: s)
qed

lemma analyze_data_contribution:
  "sum_values (program_area_count (fst (analyze_data es)))
     + spam_ticket_count (fst (analyze_data es)) = sum_list (map contribution es)"
proof -
  obtain acc lg where el: "entries_loop es (init_accum, []) = (acc, lg)"
    by (cases "entries_loop es (init_accum, [])")
  have p: "program_area_count (fst (analyze_data es)) = program_area_count acc"
    and sp: "spam_ticket_count (fst (analyze_data es)) = spam_ticket_count acc"
    by (simp_all add: analyze_data_def el)
  have z: "sum_values (program_area_count init_accum) = 0" "spam_ticket_count init_accum = 0"
    by (simp_all add: init_accum_def sum_values_def)
  have "sum_values (program_area_count acc) + spam_ticket_count acc
      = sum_list (map contribution es)"
    using entries_loop_contribution [of es "(init_accum, [])"] by (simp add: el z)
  then show ?thesis by (simp add: p sp)
qed

lemma last_occurrence_program_area:
  "last_occurrence ''program_area'' fs =
     (case filter is_program_area fs of [] \<Rightarrow> None | x # xs \<Rightarrow> field_value (last (x # xs)))"
  by (simp add: last_occurrence_def is_program_area_def [abs_def])

lemma contribution_single:
  assumes "length (filter is_program_area (fields_of e)) \<le> 1"
  shows "contribution e = 1"
proof -
  have f: "filter (\<lambda>fld. is_program_area fld \<and> truthy (field_value fld)) (fields_of e)
      = filter (\<lambda>fld. truthy (field_value fld)) (filter is_program_area (fields_of e))"
    by (simp add: conj_commute)
  show ?thesis
  proof (cases "filter is_program_area (fields_of e)")
    case Nil
    then show ?thesis
      by (simp add: contribution_def last_occurrence_program_area f)
  next
    case (Cons x xs)
    then have "xs = []" using assms by simp
    then show ?thesis
      using Cons by (simp add: contribution_def last_occurrence_program_area f)
  qed
qed

lemma total_invariant_without_duplicates:
  assumes "\<forall>e \<in> set es. length (filter is_program_area (fields_of e)) \<le> 1"
  shows "total_tickets (fst (analyze_data es)) =
           sum_values (program_area_count (fst (analyze_data es)))
             + spam_ticket_count (fst (analyze_data es))"
proof -
  have "sum_list (map contribution es) = length es"
    using assms by (induction es) (simp_all add: contribution_single)
  then show ?thesis
    by (simp add: analyze_data_contribution analyze_data_total)
qed

text \<open>
  Claim C1 says that for every sequence of tickets the total equals the sum of the
  program-area counters plus the spam count. The code counts a program area at every
  custom field that carries one, not once per ticket: for the single ticket with two
  program-area fields A and B the total is 1, the program-area sum is 2 and the spam count
  is 0, and the validation of the run itself raises "Validation failed for combined data."
  on these statistics.
\<close>

theorem duplicate_program_area_breaks_total:
  "total_tickets (fst (analyze_data
      [\<lparr>created_at = None, tags = None,
        custom_fields = Some [\<lparr>field_id = Some 38830788, field_value = Some ''A''\<rparr>,
                              \<lparr>field_id = Some 38830788, field_value = Some ''B''\<rparr>]\<rparr>])) = 1
   \<and> sum_values (program_area_count (fst (analyze_data
      [\<lparr>created_at = None, tags = None,
        custom_fields = Some [\<lparr>field_id = Some 38830788, field_value = Some ''A''\<rparr>,
                              \<lparr>field_id = Some 38830788, field_value = Some ''B''\<rparr>]\<rparr>]))) = 2
   \<and> spam_ticket_count (fst (analyze_data
      [\<lparr>created_at = None, tags = None,
        custom_fields = Some [\<lparr>field_id = Some 38830788, field_value = Some ''A''\<rparr>,
                              \<lparr>field_id = Some 38830788, field_value = Some ''B''\<rparr>]\<rparr>])) = 0
   \<and> fst (validation_checks (fst (analyze_data
      [\<lparr>created_at = None, tags = None,
        custom_fields = Some [\<lparr>field_id = Some 38830788, field_value = Some ''A''\<rparr>,
                              \<lparr>field_id = Some 38830788, field_value = Some ''B''\<rparr>]\<rparr>])) [])
       = Inl (ValueError ''Validation failed for combined data.'')"
  by (simp add: eval_defs validation_checks_fst)

text \<open>
  Claim C2 says that a ticket adds to a category's counter once, for its resolved value,
  and not at all when that value is empty. The code counts at every field: the ticket with
  two channel fields of value web adds 2 to the counter of web, and the ticket whose
  segment fields are x and then the empty string resolves to the empty value and still
  adds x to the segment counter and to the distinct segments.
\<close>

theorem duplicate_field_counted_twice:
  "count_of (channel_count (fst (analyze_entry
      \<lparr>created_at = None, tags = None,
       custom_fields = Some [\<lparr>field_id = Some 38954747, field_value = Some ''web''\<rparr>,
                             \<lparr>field_id = Some 38954747, field_value = Some ''web''\<rparr>]\<rparr>
      (init_accum, [])))) ''web'' = 2
   \<and> last_occurrence ''segment''
        [\<lparr>field_id = Some 1500001654502, field_value = Some ''x''\<rparr>,
         \<lparr>field_id = Some 1500001654502, field_value = Some ''''\<rparr>] = Some ''''
   \<and> count_of (segment_count (fst (analyze_entry
      \<lparr>created_at = None, tags = None,
       custom_fields = Some [\<lparr>field_id = Some 1500001654502, field_value = Some ''x''\<rparr>,
                             \<lparr>field_id = Some 1500001654502, field_value = Some ''''\<rparr>]\<rparr>
      (init_accum, [])))) ''x'' = 1
   \<and> unique_segments (fst (analyze_entry
      \<lparr>created_at = None, tags = None,
       custom_fields = Some [\<lparr>field_id = Some 1500001654502, field_value = Some ''x''\<rparr>,
                             \<lparr>field_id = Some 1500001654502, field_value = Some ''''\<rparr>]\<rparr>
      (init_accum, []))) = {''x''}
   \<and> count_of (channel_count (fst (analyze_data
      [\<lparr>created_at = None, tags = None,
        custom_fields = Some [\<lparr>field_id = Some 38954747, field_value = Some ''web''\<rparr>,
                              \<lparr>field_id = Some 38954747, field_value = Some ''web''\<rparr>]\<rparr>])))
        ''web'' = 2
   \<and> count_of (segment_count (fst (analyze_data
      [\<lparr>created_at = None, tags = None,
        custom_fields = Some [\<lparr>field_id = Some 1500001654502, field_value = Some ''x''\<rparr>,
                              \<lparr>field_id = Some 1500001654502, field_value = Some ''''\<rparr>]\<rparr>])))
        ''x'' = 1
   \<and> unique_segments (fst (analyze_data
      [\<lparr>created_at = None, tags = None,
        custom_fields = Some [\<lparr>field_id = Some 1500001654502, field_value = Some ''x''\<rparr>,
                              \<lparr>field_id = Some 1500001654502, field_value = Some ''''\<rparr>]\<rparr>]))
       = {''x''}"
  by (simp add: eval_defs)

section \<open>The aggregation over a sequence of tickets\<close>

lemma analyze_data_accum:
  "tags_count (fst (analyze_data es)) = tags_count (fst (entries_loop es (init_accum, [])))"
  "unique_tags (fst (analyze_data es)) = unique_tags (fst (entries_loop es (init_accum, [])))"
  "spam_ticket_count (fst (analyze_data es))
     = spam_ticket_count (fst (entries_loop es (init_accum, [])))"
  "program_area_count (fst (analyze_data es))
     = program_area_count (fst (entries_loop es (init_accum, [])))"
  "created_at_year_count (fst (analyze_data es))
     = created_at_year_count (fst (entries_loop es (init_accum, [])))"
  "snd (analyze_data es) = snd (entries_loop es (init_accum, []))"
  by (simp_all add: analyze_data_def split: prod.splits)

lemma entries_loop_snoc: "entries_loop (es @ [e]) s = analyze_entry e (entries_loop es s)"
  by (induction es arbitrary: s) simp_all

lemma analyze_entry_tags:
  "count_of (tags_count (fst (analyze_entry e (acc, lg)))) t
     = count_of (tags_count acc) t + count_list (tags_of e) t"
  "unique_tags (fst (analyze_entry e (acc, lg))) = unique_tags acc \<union> set (tags_of e)"
  "tags_of e = [] \<Longrightarrow> tags_count (fst (analyze_entry e (acc, lg))) = tags_count acc"
proof -
  obtain acc1 lg1 where cy: "count_year e (acc, lg) = (acc1, lg1)"
    by (cases "count_year e (acc, lg)")
  have t1: "tags_count acc1 = tags_count acc" and u1: "unique_tags acc1 = unique_tags acc"
    using count_year_tags [of e "(acc, lg)"] cy by simp_all
  have res: "fst (analyze_entry e (acc, lg)) = count_fields e (tags_loop (tags_of e) acc1)"
    by (simp add: analyze_entry_def cy count_tags_eq)
  show "count_of (tags_count (fst (analyze_entry e (acc, lg)))) t
     = count_of (tags_count acc) t + count_list (tags_of e) t"
    by (simp add: res count_fields_tags tags_loop_tags_count t1)
  show "unique_tags (fst (analyze_entry e (acc, lg))) = unique_tags acc \<union> set (tags_of e)"
    by (simp add: res count_fields_tags tags_loop_unique_tags u1)
  show "tags_count (fst (analyze_entry e (acc, lg))) = tags_count acc" if "tags_of e = []"
    using that by (simp add: res count_fields_tags t1)
qed

lemma entries_loop_tags_count:
  "count_of (tags_count (fst (entries_loop es s))) t
     = count_of (tags_count (fst s)) t + sum_list (map (\<lambda>e. count_list (tags_of e) t) es)"
proof (induction es arbitrary: s)
  case Nil
  show ?case by simp
next
  case (Cons e es)
  obtain acc lg where s: "s = (acc, lg)" by (cases s)
  show ?case
    using Cons.IH [of "analyze_entry e (acc, lg)"] by (simp add: s analyze_entry_tags)
qed

lemma entries_loop_unique_tags:
  "unique_tags (fst (entries_loop es s)) = unique_tags (fst s) \<union> set (concat (map tags_of es))"
proof (induction es arbitrary: s)
  case Nil
  show ?case by simp
next
  case (Cons e es)
  obtain acc lg where s: "s = (acc, lg)" by (cases s)
  show ?case
    using Cons.IH [of "analyze_entry e (acc, lg)"] by (auto simp: s analyze_entry_tags)
qed

text \<open>
  Claim C4. In the result of the aggregation, the counter of a tag \<open>t\<close> is the number of
  occurrences of \<open>t\<close> in the tag sequences of all tickets, duplicates within a ticket
  included, and the distinct-tag set holds exactly the tags of these sequences. A further
  ticket adds to the counter of \<open>t\<close> the number of occurrences of \<open>t\<close> in its own
  sequence (for the tags a, a, b: 2 for a and 1 for b) and its tags to the distinct-tag
  set; a ticket whose tag sequence is empty or absent leaves the tag counters and the
  distinct-tag set as they were.
\<close>

theorem tags_counted_per_occurrence:
  "count_of (tags_count (fst (analyze_data es))) t
     = sum_list (map (\<lambda>e. count_list (tags_of e) t) es)
   \<and> unique_tags (fst (analyze_data es)) = set (concat (map tags_of es))
   \<and> count_of (tags_count (fst (analyze_data (es @ [e])))) t
     = count_of (tags_count (fst (analyze_data es))) t + count_list (tags_of e) t
   \<and> unique_tags (fst (analyze_data (es @ [e])))
     = unique_tags (fst (analyze_data es)) \<union> set (tags_of e)
   \<and> (tags_of e = [] \<longrightarrow>
        tags_count (fst (analyze_data (es @ [e]))) = tags_count (fst (analyze_data es))
        \<and> unique_tags (fst (analyze_data (es @ [e]))) = unique_tags (fst (analyze_data es)))"
proof -
  obtain acc lg where el: "entries_loop es (init_accum, []) = (acc, lg)"
    by (cases "entries_loop es (init_accum, [])")
  have a: "count_of (tags_count (fst (analyze_data es))) t
     = sum_list (map (\<lambda>e. count_list (tags_of e) t) es)" for es
    using entries_loop_tags_count [of es "(init_accum, [])" t]
    by (simp add: analyze_data_accum init_accum_def count_of_def)
  have b: "unique_tags (fst (analyze_data es)) = set (concat (map tags_of es))" for es
    using entries_loop_unique_tags [of es "(init_accum, [])"]
    by (simp add: analyze_data_accum init_accum_def)
  have c: "tags_count (fst (analyze_data (es @ [e]))) = tags_count (fst (analyze_data es))"
    if "tags_of e = []"
    using that by (simp add: analyze_data_accum entries_loop_snoc el analyze_entry_tags)
  show ?thesis
    using c by (auto simp: a b)
qed

theorem tags_counted_per_occurrence_witness:
  "count_of (tags_count (fst (analyze_data
      [\<lparr>created_at = None, tags = Some [''a'', ''a'', ''b''], custom_fields = None\<rparr>]))) ''a'' = 2
   \<and> count_of (tags_count (fst (analyze_data
      [\<lparr>created_at = None, tags = Some [''a'', ''a'', ''b''], custom_fields = None\<rparr>]))) ''b'' = 1
   \<and> tags_of \<lparr>created_at = None, tags = None, custom_fields = None\<rparr> = []
   \<and> tags_count (fst (analyze_data
      ([\<lparr>created_at = None, tags = Some [''a'', ''a'', ''b''], custom_fields = None\<rparr>]
       @ [\<lparr>created_at = None, tags = None, custom_fields = None\<rparr>])))
     = tags_count (fst (analyze_data
      [\<lparr>created_at = None, tags = Some [''a'', ''a'', ''b''], custom_fields = None\<rparr>]))"
proof -
  let ?t = "\<lparr>created_at = None, tags = Some [''a'', ''a'', ''b''], custom_fields = None\<rparr>"
  let ?n = "\<lparr>created_at = None, tags = None, custom_fields = None\<rparr>"
  have n: "tags_of ?n = []" by (simp add: tags_of_def)
  have a: "count_of (tags_count (fst (analyze_data [?t]))) ''a'' = 2"
    using tags_counted_per_occurrence [of "[?t]" "''a''" ?n] by (simp add: tags_of_def)
  have b: "count_of (tags_count (fst (analyze_data [?t]))) ''b'' = 1"
    using tags_counted_per_occurrence [of "[?t]" "''b''" ?n] by (simp add: tags_of_def)
  have c: "tags_count (fst (analyze_data ([?t] @ [?n]))) = tags_count (fst (analyze_data [?t]))"
    using tags_counted_per_occurrence [of "[?t]" "''a''" ?n] n by blast
  show ?thesis using a b c n by simp
qed


lemma analyze_entry_year:
  "created_at_year_count (fst (analyze_entry e s)) =
     (case parsed_year e of
        None \<Rightarrow> created_at_year_count (fst s)
      | Some y \<Rightarrow> increment y (created_at_year_count (fst s)))"
  "snd (analyze_entry e s) = snd s @ date_warnings e"
  by (cases s; simp add: analyze_entry_def count_year_eq count_fields_year count_tags_year
      parsed_year_def date_warnings_def split: option.splits)+

lemma set_fst_increment: "fst ` set (increment k d) = insert k (fst ` set d)"
proof (induction d)
  case Nil
  show ?case by simp
next
  case (Cons a d)
  obtain k' n where a: "a = (k', n)" by (cases a)
  show ?case using Cons.IH by (cases "k = k'") (simp_all add: a insert_commute)
qed

lemma entries_loop_year_count:
  "count_of (created_at_year_count (fst (entries_loop es s))) y
     = count_of (created_at_year_count (fst s)) y
       + length (filter (\<lambda>e. parsed_year e = Some y) es)"
proof (induction es arbitrary: s)
  case Nil
  show ?case by simp
next
  case (Cons e es)
  obtain acc lg where s: "s = (acc, lg)" by (cases s)
  show ?case
    using Cons.IH [of "analyze_entry e (acc, lg)"]
    by (cases "parsed_year e") (auto simp: s analyze_entry_year count_of_increment)
qed

lemma entries_loop_year_keys:
  "fst ` set (created_at_year_count (fst (entries_loop es s)))
     = fst ` set (created_at_year_count (fst s)) \<union> set (List.map_filter parsed_year es)"
proof (induction es arbitrary: s)
  case Nil
  show ?case by (simp add: List.map_filter_simps)
next
  case (Cons e es)
  show ?case
    using Cons.IH [of "analyze_entry e s"]
    by (cases "parsed_year e")
      (simp_all add: analyze_entry_year set_fst_increment List.map_filter_simps)
qed

lemma entries_loop_log:
  "snd (entries_loop es s) = snd s @ concat (map date_warnings es)"
proof (induction es arbitrary: s)
  case Nil
  show ?case by simp
next
  case (Cons e es)
  obtain acc lg where s: "s = (acc, lg)" by (cases s)
  show ?case
    using Cons.IH [of "analyze_entry e (acc, lg)"] by (simp add: s analyze_entry_year)
qed

text \<open>
  Claim C5, as the code has it. The year of a ticket is parsed from \<^verbatim>\<open>created_at\<close> with the
  format with the literal Z suffix first and, when that fails, with the format with a
  numeric offset. In the result of the aggregation the bucket of a year counts the tickets
  of that year, and the buckets are exactly the years of the tickets; the value
  \<^verbatim>\<open>2023-05-01T10:00:00.000Z\<close> is attributed to the year 2023. The log of the aggregation
  holds one warning for every ticket whose \<^verbatim>\<open>created_at\<close> is present and matches neither
  format, and nothing for a ticket without \<^verbatim>\<open>created_at\<close>; such tickets add to no year
  bucket. The aggregation goes on after them: every ticket is counted in the total, and in
  the sequence of an unparseable, an absent and a valid timestamp the last ticket is
  counted under 2023 after the single warning.
\<close>

theorem created_at_year_attribution:
  "count_of (created_at_year_count (fst (analyze_data es))) y
     = length (filter (\<lambda>e. parsed_year e = Some y) es)
   \<and> fst ` set (created_at_year_count (fst (analyze_data es)))
     = set (List.map_filter parsed_year es)
   \<and> snd (analyze_data es) = concat (map date_warnings es)
   \<and> total_tickets (fst (analyze_data es)) = length es
   \<and> parsed_year e =
     (case created_at e of
        None \<Rightarrow> None
      | Some c \<Rightarrow>
         (case strptime c format_A of
            Inr dt \<Rightarrow> Some (year dt)
          | Inl err \<Rightarrow>
             (case strptime c format_B of Inr dt \<Rightarrow> Some (year dt) | Inl err' \<Rightarrow> None)))
   \<and> date_warnings e =
     (case created_at e of
        None \<Rightarrow> []
      | Some c \<Rightarrow>
         (case parsed_year e of
            Some y \<Rightarrow> []
          | None \<Rightarrow> [LogRecord WARNING (''Invalid date format for entry: '' @ c) []]))
   \<and> parsed_year \<lparr>created_at = Some ''2023-05-01T10:00:00.000Z'', tags = None,
        custom_fields = None\<rparr> = Some 2023
   \<and> parsed_year \<lparr>created_at = Some ''not-a-date'', tags = None, custom_fields = None\<rparr> = None
   \<and> created_at_year_count (fst (analyze_data
        [\<lparr>created_at = Some ''not-a-date'', tags = None, custom_fields = None\<rparr>,
         \<lparr>created_at = None, tags = None, custom_fields = None\<rparr>,
         \<lparr>created_at = Some ''2023-05-01T10:00:00.000Z'', tags = None, custom_fields = None\<rparr>]))
       = [(2023, 1)]
   \<and> snd (analyze_data
        [\<lparr>created_at = Some ''not-a-date'', tags = None, custom_fields = None\<rparr>,
         \<lparr>created_at = None, tags = None, custom_fields = None\<rparr>,
         \<lparr>created_at = Some ''2023-05-01T10:00:00.000Z'', tags = None, custom_fields = None\<rparr>])
       = [LogRecord WARNING ''Invalid date format for entry: not-a-date'' []]"
proof -
  let ?bad = "\<lparr>created_at = Some ''not-a-date'', tags = None, custom_fields = None\<rparr>"
  let ?none = "\<lparr>created_at = None, tags = None, custom_fields = None\<rparr>"
  let ?good = "\<lparr>created_at = Some ''2023-05-01T10:00:00.000Z'', tags = None,
        custom_fields = None\<rparr>"
  have a: "count_of (created_at_year_count (fst (analyze_data es))) y
     = length (filter (\<lambda>e. parsed_year e = Some y) es)"
    using entries_loop_year_count [of es "(init_accum, [])" y]
    by (simp add: analyze_data_accum init_accum_def count_of_def)
  have b: "fst ` set (created_at_year_count (fst (analyze_data es)))
     = set (List.map_filter parsed_year es)"
    using entries_loop_year_keys [of es "(init_accum, [])"]
    by (simp add: analyze_data_accum init_accum_def)
  have c: "snd (analyze_data es) = concat (map date_warnings es)" for es
    using entries_loop_log [of es "(init_accum, [])"] by (simp add: analyze_data_accum)
  have d: "parsed_year e =
     (case created_at e of
        None \<Rightarrow> None
      | Some c \<Rightarrow>
         (case strptime c format_A of
            Inr dt \<Rightarrow> Some (year dt)
          | Inl err \<Rightarrow>
             (case strptime c format_B of Inr dt \<Rightarrow> Some (year dt) | Inl err' \<Rightarrow> None)))"
    by (simp add: parsed_year_def year_of_def split: option.splits)
  have e: "date_warnings e =
     (case created_at e of
        None \<Rightarrow> []
      | Some c \<Rightarrow>
         (case parsed_year e of
            Some y \<Rightarrow> []
          | None \<Rightarrow> [LogRecord WARNING (''Invalid date format for entry: '' @ c) []]))"
    by (simp add: parsed_year_def date_warnings_def split: option.splits)
  have f: "parsed_year ?good = Some 2023" "parsed_year ?bad = None" "parsed_year ?none = None"
    by (simp_all add: parsed_year_def year_of_example year_of_not_a_date)
  have g: "created_at_year_count (fst (analyze_data [?bad, ?none, ?good])) = [(2023, 1)]"
    by (simp add: analyze_data_accum analyze_entry_year f init_accum_def)
  have h: "snd (analyze_data [?bad, ?none, ?good])
       = [LogRecord WARNING ''Invalid date format for entry: not-a-date'' []]"
    by (simp add: c date_warnings_def year_of_example year_of_not_a_date)
  show ?thesis
    using a b c [of es] d e f(1,2) g h analyze_data_total [of es] by blast
qed

text \<open>
  Claim C5 as stated says that a warning is reported for a ticket whose \<^verbatim>\<open>created_at\<close> is
  absent as well. The aggregation of the single ticket without any key emits no log
  record.
\<close>

theorem absent_created_at_no_warning:
  "created_at \<lparr>created_at = None, tags = None, custom_fields = None\<rparr> = None
   \<and> snd (analyze_data [\<lparr>created_at = None, tags = None, custom_fields = None\<rparr>]) = []"
  by (simp add: analyze_data_accum analyze_entry_year date_warnings_def)

lemma entries_loop_spam:
  "spam_ticket_count (fst (entries_loop es s))
     = spam_ticket_count (fst s)
       + length (filter (\<lambda>e. \<not> truthy (last_occurrence ''program_area'' (fields_of e))) es)"
proof (induction es arbitrary: s)
  case Nil
  show ?case by simp
next
  case (Cons e es)
  obtain acc lg where s: "s = (acc, lg)" by (cases s)
  show ?case
    using Cons.IH [of "analyze_entry e (acc, lg)"] by (simp add: s analyze_entry_spam)
qed

lemma analyze_data_spam:
  "spam_ticket_count (fst (analyze_data es))
     = length (filter (\<lambda>e. \<not> truthy (last_occurrence ''program_area'' (fields_of e))) es)"
  using entries_loop_spam [of es "(init_accum, [])"]
  by (simp add: analyze_data_accum init_accum_def)

text \<open>
  Claim C3 says that a ticket's program-area classification and its spam contribution
  exclude each other. The resolved value is the last occurrence and decides the spam
  counter, as the claim says, but the program-area counter is updated at every field: the
  ticket whose program-area fields are A and then the empty string resolves to the empty
  value, is counted as spam, and is counted under A as well.
\<close>

theorem counted_under_program_area_and_as_spam:
  "last_occurrence ''program_area''
      [\<lparr>field_id = Some 38830788, field_value = Some ''A''\<rparr>,
       \<lparr>field_id = Some 38830788, field_value = Some ''''\<rparr>] = Some ''''
   \<and> total_tickets (fst (analyze_data
      [\<lparr>created_at = None, tags = None,
        custom_fields = Some [\<lparr>field_id = Some 38830788, field_value = Some ''A''\<rparr>,
                              \<lparr>field_id = Some 38830788, field_value = Some ''''\<rparr>]\<rparr>])) = 1
   \<and> count_of (program_area_count (fst (analyze_data
      [\<lparr>created_at = None, tags = None,
        custom_fields = Some [\<lparr>field_id = Some 38830788, field_value = Some ''A''\<rparr>,
                              \<lparr>field_id = Some 38830788, field_value = Some ''''\<rparr>]\<rparr>]))) ''A'' = 1
   \<and> spam_ticket_count (fst (analyze_data
      [\<lparr>created_at = None, tags = None,
        custom_fields = Some [\<lparr>field_id = Some 38830788, field_value = Some ''A''\<rparr>,
                              \<lparr>field_id = Some 38830788, field_value = Some ''''\<rparr>]\<rparr>])) = 1"
  by (simp add: eval_defs)

end
